theory Spec2Isabelle
  imports Main
begin

section \<open>Strings\<close>

text \<open>
  A Python \<open>str\<close> is modelled as a \<^typ>\<open>string\<close>: a list of characters, each character
  standing for the code point of the same number (U+0000 to U+00FF). \<open>len\<close> is
  \<^const>\<open>length\<close>. The predicates below are those of \<open>str\<close> on that range.
\<close>

definition code_point :: "char \<Rightarrow> nat" where
  "code_point c = of_char c"

definition isspace :: "char \<Rightarrow> bool" where
  "isspace c = (code_point c \<in> {9, 10, 11, 12, 13, 28, 29, 30, 31, 32, 133, 160})"

definition strip :: "string \<Rightarrow> string" where
  "strip s = rev (dropWhile isspace (rev (dropWhile isspace s)))"

definition startswith :: "string \<Rightarrow> string \<Rightarrow> bool" where
  "startswith s p = (take (length p) s = p)"

text \<open>\<open>sub in s\<close> for strings.\<close>

fun contains :: "string \<Rightarrow> string \<Rightarrow> bool" where
  "contains [] sub = (sub = [])"
| "contains (c # s) sub = (startswith (c # s) sub \<or> contains s sub)"

text \<open>\<open>s.replace(old, new)\<close> for a non-empty \<open>old\<close> (the only use the program makes of it).\<close>

fun replace :: "string \<Rightarrow> string \<Rightarrow> string \<Rightarrow> string" where
  "replace [] old new = []"
| "replace (c # s) old new =
     (if old \<noteq> [] \<and> startswith (c # s) old
      then new @ replace (drop (length old) (c # s)) old new
      else c # replace s old new)"

text \<open>
  The ASCII letters and digits, which is what the URL functions test for
  (\<open>url[0].isascii() and url[0].isalpha()\<close>, the characters of a scheme), and \<open>lower\<close> on
  them.
\<close>

definition is_upper :: "char \<Rightarrow> bool" where
  "is_upper c = (65 \<le> code_point c \<and> code_point c \<le> 90)"

definition is_lower :: "char \<Rightarrow> bool" where
  "is_lower c = (97 \<le> code_point c \<and> code_point c \<le> 122)"

definition is_digit :: "char \<Rightarrow> bool" where
  "is_digit c = (48 \<le> code_point c \<and> code_point c \<le> 57)"

definition is_alpha :: "char \<Rightarrow> bool" where
  "is_alpha c = (is_upper c \<or> is_lower c)"

definition lower_char :: "char \<Rightarrow> char" where
  "lower_char c = (if is_upper c then char_of (code_point c + 32) else c)"

text \<open>
  \<open>s.title()\<close>: a cased character is put in title case when the character before it is not
  cased, in lower case otherwise. The cased characters up to U+00FF are the ASCII letters,
  the letters U+00C0 to U+00FF without the two signs U+00D7 and U+00F7, and U+00AA, U+00B5
  and U+00BA. The title case of U+00DF is \<open>Ss\<close>. The title case of U+00B5 is U+039C and that
  of U+00FF is U+0178; a string with these code points is not a value of \<open>string\<close>, and
  the two characters are left as they are.
\<close>

definition is_cased :: "char \<Rightarrow> bool" where
  "is_cased c =
     (is_upper c \<or> is_lower c \<or> code_point c \<in> {170, 181, 186}
      \<or> (192 \<le> code_point c \<and> code_point c \<noteq> 215 \<and> code_point c \<noteq> 247))"

definition lower_full :: "char \<Rightarrow> string" where
  "lower_full c =
     (if is_upper c \<or> (192 \<le> code_point c \<and> code_point c \<le> 222 \<and> code_point c \<noteq> 215)
      then [char_of (code_point c + 32)] else [c])"

definition title_full :: "char \<Rightarrow> string" where
  "title_full c =
     (if is_lower c \<or> (224 \<le> code_point c \<and> code_point c \<le> 254 \<and> code_point c \<noteq> 247)
      then [char_of (code_point c - 32)]
      else if code_point c = 223 then ''Ss''
      else [c])"

fun title_from :: "bool \<Rightarrow> string \<Rightarrow> string" where
  "title_from prev [] = []"
| "title_from prev (c # s) =
     (if prev then lower_full c else title_full c) @ title_from (is_cased c) s"

definition title :: "string \<Rightarrow> string" where
  "title s = title_from False s"

text \<open>\<open>s.split(sep)\<close> for a one-character separator, and \<open>sep.join(parts)\<close>.\<close>

fun split :: "char \<Rightarrow> string \<Rightarrow> string list" where
  "split sep [] = [[]]"
| "split sep (c # s) =
     (if c = sep then [] # split sep s
      else (case split sep s of [] \<Rightarrow> [[c]] | p # ps \<Rightarrow> (c # p) # ps))"

fun join :: "string \<Rightarrow> string list \<Rightarrow> string" where
  "join sep [] = []"
| "join sep [p] = p"
| "join sep (p # q # ps) = p @ sep @ join sep (q # ps)"

text \<open>\<open>str(n)\<close> for a natural number.\<close>

definition digit_char :: "nat \<Rightarrow> char" where
  "digit_char d = char_of (48 + d)"

fun str_nat :: "nat \<Rightarrow> string" where
  "str_nat n = (if n < 10 then [digit_char n] else str_nat (n div 10) @ [digit_char (n mod 10)])"

declare str_nat.simps [simp del]

section \<open>The URL functions of the standard library\<close>

text \<open>
  \<open>urllib.parse\<close>, as far as the extractor uses it: \<open>urlparse\<close> and \<open>urljoin\<close> on
  \<open>str\<close> arguments with \<open>allow_fragments=True\<close>, following CPython 3.11. The functions raise
  \<open>ValueError\<close> for an authority with unbalanced or invalid square brackets; the check of the
  authority under NFKC normalisation never fails for the characters of the model.
\<close>

datatype error = ValueError

type_synonym 'a result = "error + 'a"

definition uses_relative :: "string list" where
  "uses_relative = ['''', ''ftp'', ''http'', ''gopher'', ''nntp'', ''imap'',
     ''wais'', ''file'', ''https'', ''shttp'', ''mms'',
     ''prospero'', ''rtsp'', ''rtsps'', ''rtspu'', ''sftp'',
     ''svn'', ''svn+ssh'', ''ws'', ''wss'']"

definition uses_netloc :: "string list" where
  "uses_netloc = ['''', ''ftp'', ''http'', ''gopher'', ''nntp'', ''telnet'',
     ''imap'', ''wais'', ''file'', ''mms'', ''https'', ''shttp'',
     ''snews'', ''prospero'', ''rtsp'', ''rtsps'', ''rtspu'', ''rsync'',
     ''svn'', ''svn+ssh'', ''sftp'', ''nfs'', ''git'', ''git+ssh'',
     ''ws'', ''wss'']"

definition uses_params :: "string list" where
  "uses_params = ['''', ''ftp'', ''hdl'', ''prospero'', ''http'', ''imap'',
     ''https'', ''shttp'', ''rtsp'', ''rtsps'', ''rtspu'', ''sip'',
     ''sips'', ''mms'', ''sftp'', ''tel'']"

definition scheme_char :: "char \<Rightarrow> bool" where
  "scheme_char c = (is_alpha c \<or> is_digit c \<or> c \<in> set ''+-.'')"

definition c0_control_or_space :: "char \<Rightarrow> bool" where
  "c0_control_or_space c = (code_point c \<le> 32)"

definition unsafe_url_byte :: "char \<Rightarrow> bool" where
  "unsafe_url_byte c = (code_point c \<in> {9, 13, 10})"

definition is_hex_digit :: "char \<Rightarrow> bool" where
  "is_hex_digit c = (is_digit c \<or> (97 \<le> code_point c \<and> code_point c \<le> 102)
       \<or> (65 \<le> code_point c \<and> code_point c \<le> 70))"

text \<open>\<open>s.partition(sep)\<close>: the parts before and after the first \<open>sep\<close>, and whether it was found.\<close>

definition partition_char :: "char \<Rightarrow> string \<Rightarrow> string \<times> bool \<times> string" where
  "partition_char sep s =
     (takeWhile (\<lambda>c. c \<noteq> sep) s, sep \<in> set s, drop 1 (dropWhile (\<lambda>c. c \<noteq> sep) s))"

subsection \<open>Addresses in square brackets\<close>

definition decimal_value :: "string \<Rightarrow> nat" where
  "decimal_value s = foldl (\<lambda>n c. 10 * n + (code_point c - 48)) 0 s"

definition parse_octet_ok :: "string \<Rightarrow> bool" where
  "parse_octet_ok octet_str =
     (octet_str \<noteq> [] \<and> list_all is_digit octet_str \<and> length octet_str \<le> 3
      \<and> \<not> (octet_str \<noteq> ''0'' \<and> hd octet_str = CHR ''0'')
      \<and> decimal_value octet_str \<le> 255)"

definition ipv4_address_ok :: "string \<Rightarrow> bool" where
  "ipv4_address_ok addr_str =
     (CHR ''/'' \<notin> set addr_str \<and> addr_str \<noteq> []
      \<and> length (split CHR ''.'' addr_str) = 4
      \<and> list_all parse_octet_ok (split CHR ''.'' addr_str))"

definition parse_hextet_ok :: "string \<Rightarrow> bool" where
  "parse_hextet_ok hextet_str =
     (list_all is_hex_digit hextet_str \<and> length hextet_str \<le> 4 \<and> hextet_str \<noteq> [])"

text \<open>
  \<open>IPv6Address._ip_int_from_string\<close>, as a check: \<open>parts\<close> is the address split at the
  colons, with a dotted suffix already replaced by two hextets.
\<close>

definition ipv6_parts_ok :: "string list \<Rightarrow> bool" where
  "ipv6_parts_ok parts =
     (let skips = filter (\<lambda>i. parts ! i = []) [1 ..< length parts - 1] in
      length parts \<le> 9 \<and> length skips \<le> 1 \<and>
      (case skips of
         skip_index # _ \<Rightarrow>
           (let hi0 = skip_index;
                lo0 = length parts - skip_index - 1;
                parts_hi = (if hd parts = [] then hi0 - 1 else hi0);
                parts_lo = (if last parts = [] then lo0 - 1 else lo0)
            in \<not> (hd parts = [] \<and> parts_hi \<noteq> 0)
               \<and> \<not> (last parts = [] \<and> parts_lo \<noteq> 0)
               \<and> parts_hi + parts_lo < 8
               \<and> list_all parse_hextet_ok (take parts_hi parts)
               \<and> list_all parse_hextet_ok (drop (length parts - parts_lo) parts))
       | [] \<Rightarrow>
           length parts = 8 \<and> hd parts \<noteq> [] \<and> last parts \<noteq> []
           \<and> list_all parse_hextet_ok parts))"

definition ipv6_address_ok :: "string \<Rightarrow> bool" where
  "ipv6_address_ok address =
     (case partition_char CHR ''%'' address of (addr_str, sep, scope_id) \<Rightarrow>
        CHR ''/'' \<notin> set address
        \<and> \<not> (sep \<and> (scope_id = [] \<or> CHR ''%'' \<in> set scope_id))
        \<and> addr_str \<noteq> []
        \<and> (let parts = split CHR '':'' addr_str in
             3 \<le> length parts
             \<and> (if CHR ''.'' \<in> set (last parts)
                 then ipv4_address_ok (last parts)
                      \<and> ipv6_parts_ok (butlast parts @ [''0'', ''0''])
                 else ipv6_parts_ok parts)))"

text \<open>\<open>re.match(r"\Av[a-fA-F0-9]+\..+\Z", hostname)\<close>.\<close>

definition ipvfuture_ok :: "string \<Rightarrow> bool" where
  "ipvfuture_ok hostname =
     (let digits = takeWhile is_hex_digit (drop 1 hostname);
          rest = dropWhile is_hex_digit (drop 1 hostname)
      in startswith hostname ''v'' \<and> digits \<noteq> [] \<and> startswith rest ''.''
         \<and> drop 1 rest \<noteq> [] \<and> CHR 0x0A \<notin> set (drop 1 rest))"

definition check_bracketed_host :: "string \<Rightarrow> bool" where
  "check_bracketed_host hostname =
     (if startswith hostname ''v'' then ipvfuture_ok hostname
      else \<not> ipv4_address_ok hostname \<and> ipv6_address_ok hostname)"

subsection \<open>urlsplit, urlparse, urlunparse, urljoin\<close>

definition splitnetloc :: "string \<Rightarrow> string \<times> string" where
  "splitnetloc url =
     (takeWhile (\<lambda>c. c \<notin> set ''/?#'') (drop 2 url),
      dropWhile (\<lambda>c. c \<notin> set ''/?#'') (drop 2 url))"

definition netloc_ok :: "string \<Rightarrow> bool" where
  "netloc_ok netloc =
     (let lb = CHR ''['' \<in> set netloc; rb = CHR '']'' \<in> set netloc in
      \<not> ((lb \<and> \<not> rb) \<or> (rb \<and> \<not> lb))
      \<and> \<not> (lb \<and> rb \<and>
           \<not> check_bracketed_host
               (fst (partition_char CHR '']'' (snd (snd (partition_char CHR ''['' netloc)))))))"

definition urlsplit :: "string \<Rightarrow> string \<Rightarrow> (string \<times> string \<times> string \<times> string \<times> string) result" where
  "urlsplit url0 scheme0 =
     (let url1 = filter (\<lambda>c. \<not> unsafe_url_byte c) (dropWhile c0_control_or_space url0);
          scheme1 = filter (\<lambda>c. \<not> unsafe_url_byte c)
                      (rev (dropWhile c0_control_or_space
                        (rev (dropWhile c0_control_or_space scheme0))));
          pre = takeWhile (\<lambda>c. c \<noteq> CHR '':'') url1;
          has_scheme = (CHR '':'' \<in> set url1 \<and> pre \<noteq> [] \<and> is_alpha (hd url1)
                        \<and> list_all scheme_char pre);
          scheme = (if has_scheme then map lower_char pre else scheme1);
          url2 = (if has_scheme then drop (Suc (length pre)) url1 else url1);
          has_netloc = (take 2 url2 = ''//'');
          netloc = (if has_netloc then fst (splitnetloc url2) else []);
          url3 = (if has_netloc then snd (splitnetloc url2) else url2);
          fragment = (if CHR ''#'' \<in> set url3 then snd (snd (partition_char CHR ''#'' url3)) else []);
          url4 = (if CHR ''#'' \<in> set url3 then fst (partition_char CHR ''#'' url3) else url3);
          query = (if CHR ''?'' \<in> set url4 then snd (snd (partition_char CHR ''?'' url4)) else []);
          url5 = (if CHR ''?'' \<in> set url4 then fst (partition_char CHR ''?'' url4) else url4)
      in if has_netloc \<and> \<not> netloc_ok netloc then Inl ValueError
         else Inr (scheme, netloc, url5, query, fragment))"

text \<open>\<open>_splitparams\<close>: the parameters start at the first \<open>;\<close> of the last path segment.\<close>

definition splitparams :: "string \<Rightarrow> string \<times> string" where
  "splitparams url =
     (if CHR ''/'' \<in> set url
      then (let tail = rev (takeWhile (\<lambda>c. c \<noteq> CHR ''/'') (rev url));
                front = take (length url - length tail) url
            in if CHR '';'' \<in> set tail
               then (front @ takeWhile (\<lambda>c. c \<noteq> CHR '';'') tail,
                     drop 1 (dropWhile (\<lambda>c. c \<noteq> CHR '';'') tail))
               else (url, []))
      else (takeWhile (\<lambda>c. c \<noteq> CHR '';'') url, drop 1 (dropWhile (\<lambda>c. c \<noteq> CHR '';'') url)))"

definition urlparse :: "string \<Rightarrow> string \<Rightarrow>
    (string \<times> string \<times> string \<times> string \<times> string \<times> string) result" where
  "urlparse url0 scheme0 =
     (case urlsplit url0 scheme0 of
        Inl e \<Rightarrow> Inl e
      | Inr (scheme, netloc, url, query, fragment) \<Rightarrow>
          if scheme \<in> set uses_params \<and> CHR '';'' \<in> set url
          then Inr (scheme, netloc, fst (splitparams url), snd (splitparams url), query, fragment)
          else Inr (scheme, netloc, url, [], query, fragment))"

definition urlunsplit :: "string \<times> string \<times> string \<times> string \<times> string \<Rightarrow> string" where
  "urlunsplit components =
     (case components of (scheme, netloc, url0, query, fragment) \<Rightarrow>
        (let url1 = (if netloc \<noteq> [] \<or> (scheme \<noteq> [] \<and> scheme \<in> set uses_netloc) \<or> take 2 url0 = ''//''
                     then ''//'' @ netloc @ (if url0 \<noteq> [] \<and> take 1 url0 \<noteq> ''/'' then ''/'' @ url0 else url0)
                     else url0);
             url2 = (if scheme \<noteq> [] then scheme @ '':'' @ url1 else url1);
             url3 = (if query \<noteq> [] then url2 @ ''?'' @ query else url2)
         in if fragment \<noteq> [] then url3 @ ''#'' @ fragment else url3))"

definition urlunparse :: "string \<times> string \<times> string \<times> string \<times> string \<times> string \<Rightarrow> string" where
  "urlunparse components =
     (case components of (scheme, netloc, url, params, query, fragment) \<Rightarrow>
        urlunsplit (scheme, netloc, (if params \<noteq> [] then url @ '';'' @ params else url), query, fragment))"

text \<open>The loop of \<open>urljoin\<close> over the segments: \<open>..\<close> pops, \<open>.\<close> is skipped.\<close>

fun resolve_segments :: "string list \<Rightarrow> string list \<Rightarrow> string list" where
  "resolve_segments resolved_path [] = resolved_path"
| "resolve_segments resolved_path (seg # segs) =
     (if seg = ''..'' then resolve_segments (butlast resolved_path) segs
      else if seg = ''.'' then resolve_segments resolved_path segs
      else resolve_segments (resolved_path @ [seg]) segs)"

text \<open>\<open>segments[1:-1] = filter(None, segments[1:-1])\<close>.\<close>

fun filter_inner :: "string list \<Rightarrow> string list" where
  "filter_inner [] = []"
| "filter_inner [x] = [x]"
| "filter_inner (x # y # ys) = x # filter (\<lambda>s. s \<noteq> []) (butlast (y # ys)) @ [last (y # ys)]"

definition urljoin :: "string \<Rightarrow> string \<Rightarrow> string result" where
  "urljoin base url =
     (if base = [] then Inr url
      else if url = [] then Inr base
      else
        case urlparse base [] of
          Inl e \<Rightarrow> Inl e
        | Inr (bscheme, bnetloc, bpath, bparams, bquery, bfragment) \<Rightarrow>
           (case urlparse url bscheme of
              Inl e \<Rightarrow> Inl e
            | Inr (scheme, netloc0, path, params, query, fragment) \<Rightarrow>
                if scheme \<noteq> bscheme \<or> scheme \<notin> set uses_relative then Inr url
                else if scheme \<in> set uses_netloc \<and> netloc0 \<noteq> []
                then Inr (urlunparse (scheme, netloc0, path, params, query, fragment))
                else
                  (let netloc = (if scheme \<in> set uses_netloc then bnetloc else netloc0) in
                   if path = [] \<and> params = []
                   then Inr (urlunparse (scheme, netloc, bpath, bparams,
                               (if query = [] then bquery else query), fragment))
                   else
                    (let base_parts0 = split CHR ''/'' bpath;
                         base_parts = (if last base_parts0 \<noteq> [] then butlast base_parts0 else base_parts0);
                         segments = (if take 1 path = ''/'' then split CHR ''/'' path
                                     else filter_inner (base_parts @ split CHR ''/'' path));
                         resolved0 = resolve_segments [] segments;
                         resolved_path = (if last segments \<in> {''.'', ''..''} then resolved0 @ [[]] else resolved0);
                         joined = join ''/'' resolved_path
                     in Inr (urlunparse (scheme, netloc, (if joined = [] then ''/'' else joined),
                               params, query, fragment))))))"

section \<open>The parsed tree\<close>

text \<open>
  The tree the HTML parser hands over. A tag has a name, the tokens of its \<open>class\<close> attribute
  (the empty list when it has none), its other attributes, and its children in document
  order. A child is a tag or a string; \<open>Comment\<close> stands for the string nodes that
  \<open>get_text\<close> leaves out (comments, declarations and the like), which are instances of
  \<open>NavigableString\<close> all the same.
\<close>

datatype node =
    Tag string "string list" "(string \<times> string) list" "node list"
  | NavigableString string
  | Comment string

fun is_tag :: "node \<Rightarrow> bool" where
  "is_tag (Tag n cs as ks) = True"
| "is_tag _ = False"

fun name :: "node \<Rightarrow> string" where
  "name (Tag n cs as ks) = n"
| "name _ = []"

text \<open>\<open>element.get('class', [])\<close>.\<close>

fun get_class :: "node \<Rightarrow> string list" where
  "get_class (Tag n cs as ks) = cs"
| "get_class _ = []"

text \<open>\<open>element.get(key)\<close> and \<open>element.get(key, default)\<close> for the other attributes.\<close>

fun get :: "node \<Rightarrow> string \<Rightarrow> string option" where
  "get (Tag n cs as ks) key = map_of as key"
| "get _ key = None"

definition get_default :: "node \<Rightarrow> string \<Rightarrow> string \<Rightarrow> string" where
  "get_default element key dflt = (case get element key of None \<Rightarrow> dflt | Some v \<Rightarrow> v)"

fun children :: "node \<Rightarrow> node list" where
  "children (Tag n cs as ks) = ks"
| "children _ = []"

text \<open>
  The descendants of an element in document order, each with its ancestors (the parent
  first, the ancestors of the element itself, \<open>anc\<close>, last).
\<close>

fun descendants :: "node list \<Rightarrow> node \<Rightarrow> (node list \<times> node) list" where
  "descendants anc (Tag n cs as ks) =
     concat (map (\<lambda>k. (Tag n cs as ks # anc, k) # descendants (Tag n cs as ks # anc) k) ks)"
| "descendants anc _ = []"

text \<open>\<open>element.find_all(names)\<close> and \<open>element.find(names)\<close>, with the ancestors of each hit.\<close>

definition find_all_anc :: "node list \<Rightarrow> string list \<Rightarrow> node \<Rightarrow> (node list \<times> node) list" where
  "find_all_anc anc names element =
     filter (\<lambda>(a, k). is_tag k \<and> name k \<in> set names) (descendants anc element)"

definition find_all :: "string list \<Rightarrow> node \<Rightarrow> node list" where
  "find_all names element = map snd (find_all_anc [] names element)"

definition find_anc :: "node list \<Rightarrow> string list \<Rightarrow> node \<Rightarrow> (node list \<times> node) option" where
  "find_anc anc names element =
     (case find_all_anc anc names element of [] \<Rightarrow> None | x # _ \<Rightarrow> Some x)"

definition find :: "string list \<Rightarrow> node \<Rightarrow> node option" where
  "find names element = (case find_all names element of [] \<Rightarrow> None | x # _ \<Rightarrow> Some x)"

text \<open>\<open>element.find_all(name, recursive=False)\<close>.\<close>

definition find_all_children :: "string \<Rightarrow> node \<Rightarrow> node list" where
  "find_all_children nm element = filter (\<lambda>k. is_tag k \<and> name k = nm) (children element)"

text \<open>Search by class: \<open>class_='token'\<close>, and \<open>class_=re.compile('(a|b|...)')\<close>.\<close>

definition has_class :: "string \<Rightarrow> node \<Rightarrow> bool" where
  "has_class token element = (token \<in> set (get_class element))"

definition find_all_class :: "string \<Rightarrow> node \<Rightarrow> node list" where
  "find_all_class token element =
     filter (\<lambda>k. is_tag k \<and> has_class token k) (map snd (descendants [] element))"

definition find_class :: "string \<Rightarrow> node \<Rightarrow> node option" where
  "find_class token element = (case find_all_class token element of [] \<Rightarrow> None | x # _ \<Rightarrow> Some x)"

definition class_matches :: "string list \<Rightarrow> node \<Rightarrow> bool" where
  "class_matches alternatives element =
     list_ex (\<lambda>token. list_ex (\<lambda>alt. contains token alt) alternatives) (get_class element)"

definition find_all_class_re :: "string list \<Rightarrow> node \<Rightarrow> node list" where
  "find_all_class_re alternatives element =
     filter (\<lambda>k. is_tag k \<and> class_matches alternatives k) (map snd (descendants [] element))"

text \<open>Search by an attribute value: \<open>find_all(name, key=value)\<close>.\<close>

definition find_all_attr :: "string \<Rightarrow> string \<Rightarrow> string \<Rightarrow> node \<Rightarrow> node list" where
  "find_all_attr nm key v element = filter (\<lambda>k. get k key = Some v) (find_all [nm] element)"

definition find_attr :: "string \<Rightarrow> string \<Rightarrow> string \<Rightarrow> node \<Rightarrow> node option" where
  "find_attr nm key v element =
     (case find_all_attr nm key v element of [] \<Rightarrow> None | x # _ \<Rightarrow> Some x)"

text \<open>\<open>get_text\<close>: the strings below an element, in document order.\<close>

fun all_strings :: "node \<Rightarrow> string list" where
  "all_strings (Tag n cs as ks) = concat (map all_strings ks)"
| "all_strings (NavigableString s) = [s]"
| "all_strings (Comment s) = []"

definition stripped_strings :: "node \<Rightarrow> string list" where
  "stripped_strings element = filter (\<lambda>s. s \<noteq> []) (map strip (all_strings element))"

definition get_text :: "node \<Rightarrow> string" where
  "get_text element = concat (all_strings element)"

definition get_text_strip :: "node \<Rightarrow> string" where
  "get_text_strip element = concat (stripped_strings element)"

definition get_text_sep_strip :: "string \<Rightarrow> node \<Rightarrow> string" where
  "get_text_sep_strip separator element = join separator (stripped_strings element)"

text \<open>\<open>element.string\<close>: the single string below a chain of only children.\<close>

fun string_of :: "node \<Rightarrow> string option" where
  "string_of (Tag n cs as [k]) = string_of k"
| "string_of (Tag n cs as ks) = None"
| "string_of (NavigableString s) = Some s"
| "string_of (Comment s) = Some s"

section \<open>The document\<close>

text \<open>
  The document being written: a sequence of blocks in the order they were added. A heading
  is a paragraph of style \<open>Heading n\<close>; a table is a grid of cells, each cell a list of
  paragraphs (one empty paragraph when the table is made). The document library is taken
  to accept every string as the text of a run.
\<close>

record run =
  run_text :: string
  bold :: bool
  italic :: bool
  underline :: bool
  font_size :: "nat option"
  font_color :: "(nat \<times> nat \<times> nat) option"

datatype alignment = CENTER

record para =
  style :: "string option"
  alignment :: "alignment option"
  runs :: "run list"

type_synonym cell = "para list"

datatype block = Paragraph para | Table string "cell list list"

definition plain_run :: "string \<Rightarrow> run" where
  "plain_run t = \<lparr>run_text = t, bold = False, italic = False, underline = False,
                   font_size = None, font_color = None\<rparr>"

definition bold_run :: "string \<Rightarrow> run" where
  "bold_run t = (plain_run t)\<lparr>bold := True\<rparr>"

definition italic_run :: "string \<Rightarrow> run" where
  "italic_run t = (plain_run t)\<lparr>italic := True\<rparr>"

definition new_paragraph :: "string option \<Rightarrow> run list \<Rightarrow> para" where
  "new_paragraph st rs = \<lparr>style = st, alignment = None, runs = rs\<rparr>"

text \<open>\<open>doc.add_paragraph()\<close>, \<open>doc.add_paragraph(text)\<close>, \<open>doc.add_heading(text, level)\<close>.\<close>

definition empty_paragraph :: block where
  "empty_paragraph = Paragraph (new_paragraph None [])"

definition text_paragraph :: "string \<Rightarrow> block" where
  "text_paragraph t = Paragraph (new_paragraph None (if t = [] then [] else [plain_run t]))"

definition heading_style :: "nat \<Rightarrow> string option" where
  "heading_style level = Some (''Heading '' @ str_nat level)"

definition heading :: "string \<Rightarrow> nat \<Rightarrow> block" where
  "heading t level =
     Paragraph (new_paragraph (heading_style level) (if t = [] then [] else [plain_run t]))"

text \<open>A fresh cell, \<open>cell.text = t\<close>, and \<open>doc.add_table(rows, cols)\<close>.\<close>

definition empty_cell :: cell where
  "empty_cell = [new_paragraph None []]"

definition text_cell :: "string \<Rightarrow> cell" where
  "text_cell t = [new_paragraph None [plain_run t]]"

definition runs_cell :: "run list \<Rightarrow> cell" where
  "runs_cell rs = [new_paragraph None rs]"

definition add_table :: "nat \<Rightarrow> nat \<Rightarrow> cell list list" where
  "add_table rows cols = replicate rows (replicate cols empty_cell)"

text \<open>\<open>for paragraph in cell.paragraphs: for run in paragraph.runs: run.bold = True\<close>.\<close>

definition bold_cell :: "cell \<Rightarrow> cell" where
  "bold_cell c = map (\<lambda>p. p\<lparr>runs := map (\<lambda>r. r\<lparr>bold := True\<rparr>) (runs p)\<rparr>) c"

definition set_cell :: "cell list list \<Rightarrow> nat \<Rightarrow> nat \<Rightarrow> cell \<Rightarrow> cell list list" where
  "set_cell grid i j c = grid[i := (grid ! i)[j := c]]"


section \<open>The content extractor\<close>

text \<open>
  \<open>ContentExtractorWorker\<close>: the fields of the object that the extraction reads and writes.
  Methods take the object and return it updated; a method that can raise returns a result.
\<close>

record worker =
  url :: string
  base_url :: string
  text_block_count :: nat
  text_image_count :: nat

definition init :: "string \<Rightarrow> worker result" where
  "init u =
     (case urlparse u [] of
        Inl e \<Rightarrow> Inl e
      | Inr (scheme, netloc, path, params, query, fragment) \<Rightarrow>
          Inr \<lparr>url = u, base_url = scheme @ ''://'' @ netloc,
               text_block_count = 0, text_image_count = 0\<rparr>)"

text \<open>\<open>_make_absolute\<close>; the argument is \<open>None\<close> or a string.\<close>

definition make_absolute :: "worker \<Rightarrow> string option \<Rightarrow> string result" where
  "make_absolute self u =
     (case u of
        None \<Rightarrow> Inr []
      | Some ref \<Rightarrow>
          if ref = [] then Inr []
          else if startswith ref ''http'' then Inr ref
          else urljoin (base_url self) ref)"

subsection \<open>Inline runs\<close>

definition link_run :: "string \<Rightarrow> run" where
  "link_run t = (plain_run t)\<lparr>underline := True, font_color := Some (0, 0, 255)\<rparr>"

fun child_runs :: "worker \<Rightarrow> node \<Rightarrow> run list result" where
  "child_runs self (NavigableString t) = Inr (if t \<noteq> [] then [plain_run t] else [])"
| "child_runs self (Comment t) = Inr (if t \<noteq> [] then [plain_run t] else [])"
| "child_runs self (Tag n cs as ks) =
     (let child = Tag n cs as ks in
      if n = ''a'' then
        (case make_absolute self (Some (get_default child ''href'' [])) of
           Inl e \<Rightarrow> Inl e
         | Inr link_url \<Rightarrow>
             Inr (link_run (get_text child)
                  # (if link_url \<noteq> [] then [link_run ('' ('' @ link_url @ '')'')] else [])))
      else if n \<in> set [''strong'', ''b''] then Inr [bold_run (get_text child)]
      else if n \<in> set [''em'', ''i''] then Inr [italic_run (get_text child)]
      else Inr [plain_run (get_text child)])"

fun add_child_runs :: "worker \<Rightarrow> para \<Rightarrow> node list \<Rightarrow> para result" where
  "add_child_runs self p [] = Inr p"
| "add_child_runs self p (child # rest) =
     (case child_runs self child of
        Inl e \<Rightarrow> Inl e
      | Inr rs \<Rightarrow> add_child_runs self (p\<lparr>runs := runs p @ rs\<rparr>) rest)"

definition process_children_with_links :: "worker \<Rightarrow> para \<Rightarrow> node \<Rightarrow> para result" where
  "process_children_with_links self p element = add_child_runs self p (children element)"

subsection \<open>Tables\<close>

definition fill_row :: "nat \<Rightarrow> cell list list \<Rightarrow> nat \<Rightarrow> node list \<Rightarrow> cell list list" where
  "fill_row col_count grid i cells =
     fold (\<lambda>(j, c) g. if j < col_count then set_cell g i j (text_cell (get_text_strip c)) else g)
       (enumerate 0 cells) grid"

definition process_table :: "block list \<Rightarrow> node \<Rightarrow> block list" where
  "process_table doc table_element =
     (let rows = find_all [''tr''] table_element in
      if rows = [] then doc
      else
        (let col_count = Max (set (map (\<lambda>row. length (find_all [''td'', ''th''] row)) rows));
             word_table = add_table (length rows) col_count
         in doc @ [Table ''Light Grid Accent 1''
              (fold (\<lambda>(i, row) g. fill_row col_count g i (find_all [''td'', ''th''] row))
                 (enumerate 0 rows) word_table)]))"

text \<open>The table routine of the crawler worker (\<open>crawler_worker.py\<close>), which sets header cells in bold.\<close>

definition crawler_fill_row :: "nat \<Rightarrow> cell list list \<Rightarrow> nat \<Rightarrow> node list \<Rightarrow> cell list list" where
  "crawler_fill_row col_count grid i cells =
     fold (\<lambda>(j, c) g.
             if j < col_count
             then set_cell g i j
                    (if name c = ''th'' then bold_cell (text_cell (get_text_strip c))
                     else text_cell (get_text_strip c))
             else g)
       (enumerate 0 cells) grid"

definition crawler_process_table :: "block list \<Rightarrow> node \<Rightarrow> block list" where
  "crawler_process_table doc table_element =
     (let rows = find_all [''tr''] table_element in
      if rows = [] then doc
      else
        (let col_count = Max (set (map (\<lambda>row. length (find_all [''td'', ''th''] row)) rows));
             word_table = add_table (length rows) col_count
         in doc @ [Table ''Light Grid Accent 1''
              (fold (\<lambda>(i, row) g. crawler_fill_row col_count g i (find_all [''td'', ''th''] row))
                 (enumerate 0 rows) word_table)]))"

subsection \<open>Special components\<close>

definition component_marker :: "string \<Rightarrow> block" where
  "component_marker label =
     Paragraph (new_paragraph None
       [(plain_run (''[COMPONENT: '' @ label @ '']''))
          \<lparr>italic := True, font_size := Some 9, font_color := Some (100, 100, 100)\<rparr>])"

definition text_block_marker :: "nat \<Rightarrow> block" where
  "text_block_marker n =
     Paragraph (new_paragraph None
       [(plain_run (''[COMPONENT: Text Block '' @ str_nat n @ '']''))
          \<lparr>bold := True, font_size := Some 9, font_color := Some (0, 100, 0)\<rparr>])"

definition heading_tags :: "string list" where
  "heading_tags = [''h2'', ''h3'', ''h4'', ''h5'', ''h6'']"

text \<open>\<open>int(tag.name[1])\<close> for a tag name \<open>h2\<close> to \<open>h6\<close>.\<close>

definition heading_level :: "string \<Rightarrow> nat" where
  "heading_level nm = code_point (nm ! 1) - 48"

definition text_patterns :: "string list" where
  "text_patterns = [''summary'', ''text'', ''desc'', ''body'', ''content'']"

text \<open>The image cell shared by the renderers: the runs for the image, and the alt text.\<close>

definition image_info :: "worker \<Rightarrow> node option \<Rightarrow> (string \<times> string) option result" where
  "image_info self img_tag =
     (case img_tag of
        None \<Rightarrow> Inr None
      | Some img \<Rightarrow>
          (case make_absolute self (Some (get_default img ''src'' [])) of
             Inl e \<Rightarrow> Inl e
           | Inr img_url \<Rightarrow> Inr (Some (img_url, strip (get_default img ''alt'' [])))))"

paragraph \<open>Hero Article\<close>

definition hero_article :: "worker \<Rightarrow> block list \<Rightarrow> node \<Rightarrow> (worker \<times> block list) result" where
  "hero_article self doc element =
     (case (case find_class ''hero--article-category'' element of
              None \<Rightarrow> Inr []
            | Some cat_elem \<Rightarrow>
                (case (case find [''a''] cat_elem of
                         None \<Rightarrow> Inr []
                       | Some cat_link \<Rightarrow> make_absolute self (Some (get_default cat_link ''href'' []))) of
                   Inl e \<Rightarrow> Inl e
                 | Inr cat_url \<Rightarrow>
                     Inr [Paragraph (new_paragraph None
                            (bold_run (''Article category: '' @ get_text_strip cat_elem)
                             # (if cat_url \<noteq> [] then [italic_run ('' - '' @ cat_url)] else [])))])) of
        Inl e \<Rightarrow> Inl e
      | Inr category \<Rightarrow>
          (case image_info self
                  (case find_class ''hero--image'' element of
                     None \<Rightarrow> None
                   | Some hero_image_container \<Rightarrow> find [''img''] hero_image_container) of
             Inl e \<Rightarrow> Inl e
           | Inr info \<Rightarrow>
               (let img_url = (case info of None \<Rightarrow> ''No image found'' | Some (u, a) \<Rightarrow> u);
                    img_alt = (case info of None \<Rightarrow> [] | Some (u, a) \<Rightarrow> a)
                in Inr (self,
                     doc @ category @
                     [Table ''Table Grid''
                        [[runs_cell [bold_run ''IMAGE:\<newline>'', plain_run img_url],
                          runs_cell [bold_run ''Alt Text: '',
                                     plain_run (if img_alt \<noteq> [] then img_alt else ''No Alt Text'')]]],
                      empty_paragraph]))))"

paragraph \<open>Articles List\<close>

text \<open>The loop that filters the category links out and removes duplicates.\<close>

fun collect_article_links ::
  "string set \<Rightarrow> (node list \<times> node) list \<Rightarrow> (node list \<times> node) list \<Rightarrow> (node list \<times> node) list" where
  "collect_article_links seen_urls article_links [] = article_links"
| "collect_article_links seen_urls article_links ((up, link) # rest) =
     (let parent_classes = (case up of [] \<Rightarrow> [] | parent # _ \<Rightarrow> get_class parent);
          href = get_default link ''href'' []
      in if ''field--name-field-article-category'' \<notin> set parent_classes
         then (if href \<noteq> [] \<and> href \<notin> seen_urls
               then collect_article_links (insert href seen_urls) (article_links @ [(up, link)]) rest
               else collect_article_links seen_urls article_links rest)
         else collect_article_links seen_urls article_links rest)"

text \<open>\<open>element.find_all('a')\<close>, each link with its parents up to the component.\<close>

definition all_links :: "node \<Rightarrow> (node list \<times> node) list" where
  "all_links element = find_all_anc [] [''a''] element"

definition article_links :: "node \<Rightarrow> (node list \<times> node) list" where
  "article_links element = collect_article_links {} [] (all_links element)"

text \<open>The walk up the parents of a link, as far as the component, for a title field.\<close>

fun title_lookup :: "node \<Rightarrow> string \<Rightarrow> node list \<Rightarrow> string" where
  "title_lookup element title_text [] = title_text"
| "title_lookup element title_text (parent # up) =
     (if parent = element then title_text
      else (case find_class ''field--name-title'' parent of
              Some title_field \<Rightarrow> get_text_strip title_field
            | None \<Rightarrow> title_lookup element title_text up))"

fun article_rows :: "worker \<Rightarrow> node \<Rightarrow> (node list \<times> node) list \<Rightarrow> cell list list result" where
  "article_rows self element [] = Inr []"
| "article_rows self element ((up, link) # rest) =
     (case make_absolute self (Some (get_default link ''href'' [])) of
        Inl e \<Rightarrow> Inl e
      | Inr article_url \<Rightarrow>
          (case article_rows self element rest of
             Inl e \<Rightarrow> Inl e
           | Inr rows \<Rightarrow>
               Inr ([text_cell (title_lookup element (get_text_strip link) up),
                     text_cell article_url] # rows)))"

definition articles_list :: "worker \<Rightarrow> block list \<Rightarrow> node \<Rightarrow> (worker \<times> block list) result" where
  "articles_list self doc element =
     (let component_title_text =
            (case find [''h2'', ''h3'', ''h4''] element of
               Some component_title \<Rightarrow> get_text_strip component_title
             | None \<Rightarrow> ''Articles List'')
      in if article_links element \<noteq> []
         then (case article_rows self element (article_links element) of
                 Inl e \<Rightarrow> Inl e
               | Inr rows \<Rightarrow>
                   Inr (self,
                     doc @
                     [Table ''Light Grid Accent 1''
                        ([runs_cell [bold_run ''Title''], runs_cell [bold_run ''URL'']]
                         # [bold_cell (text_cell (''Component: '' @ component_title_text)), text_cell []]
                         # rows),
                      empty_paragraph]))
         else Inr (self, doc @ [empty_paragraph]))"

paragraph \<open>Text Image\<close>

fun content_blocks :: "string set \<Rightarrow> (node list \<times> node) list \<Rightarrow> block list" where
  "content_blocks seen_texts [] = []"
| "content_blocks seen_texts ((up, tag) # rest) =
     (if list_ex (has_class ''hero--article-category'') up then content_blocks seen_texts rest
      else
        (let text_content = get_text_strip tag in
         if text_content \<noteq> [] \<and> length text_content > 2 \<and> text_content \<notin> seen_texts
         then (if name tag \<in> set heading_tags
               then heading text_content (heading_level (name tag))
               else text_paragraph text_content)
              # content_blocks (insert text_content seen_texts) rest
         else content_blocks seen_texts rest))"

fun fallback_blocks :: "string set \<Rightarrow> node list \<Rightarrow> block list" where
  "fallback_blocks seen_texts [] = []"
| "fallback_blocks seen_texts (container # rest) =
     (let t = get_text_strip container in
      if t \<noteq> [] \<and> length t > 10 \<and> t \<notin> seen_texts
      then text_paragraph t # fallback_blocks (insert t seen_texts) rest
      else fallback_blocks seen_texts rest)"

definition text_image_table :: "(string \<times> string) option \<Rightarrow> block" where
  "text_image_table info =
     Table ''Table Grid''
       [[runs_cell (bold_run ''Image Position: Left\<newline>''
                    # (case info of
                         Some (img_url, alt_text) \<Rightarrow> [bold_run ''IMAGE:\<newline>'', plain_run img_url]
                       | None \<Rightarrow> [italic_run ''No Image''])),
         runs_cell [bold_run ''Alt Text: '',
                    plain_run (case info of
                                 Some (img_url, alt_text) \<Rightarrow>
                                   if alt_text \<noteq> [] then alt_text else ''No Alt Text''
                               | None \<Rightarrow> ''No Alt Text'')]]]"

definition text_image ::
  "worker \<Rightarrow> node list \<Rightarrow> block list \<Rightarrow> node \<Rightarrow> string \<Rightarrow> (worker \<times> block list) result" where
  "text_image self anc doc element component_name =
     (let self1 = self\<lparr>text_image_count := text_image_count self + 1\<rparr>;
          display_name = component_name @ '' '' @ str_nat (text_image_count self1);
          content_tags = find_all_anc anc ([''p''] @ heading_tags @ [''li'']) element
      in case image_info self1 (find [''img''] element) of
           Inl e \<Rightarrow> Inl e
         | Inr info \<Rightarrow>
             Inr (self1,
               doc @ [component_marker display_name, text_image_table info, empty_paragraph]
               @ (if content_tags \<noteq> [] then content_blocks {} content_tags
                  else fallback_blocks {} (find_all_class_re text_patterns element))
               @ [empty_paragraph]))"

paragraph \<open>Other components\<close>

text \<open>\<open>list(dict.fromkeys(xs))\<close>: the first occurrence of each element, in order.\<close>

fun fromkeys :: "'a list \<Rightarrow> 'a list \<Rightarrow> 'a list" where
  "fromkeys seen [] = []"
| "fromkeys seen (x # xs) = (if x \<in> set seen then fromkeys seen xs else x # fromkeys (x # seen) xs)"

definition other_component ::
  "worker \<Rightarrow> block list \<Rightarrow> node \<Rightarrow> string \<Rightarrow> (worker \<times> block list) result" where
  "other_component self doc element component_name =
     (case image_info self (find [''img''] element) of
        Inl e \<Rightarrow> Inl e
      | Inr info \<Rightarrow>
          (let from_containers =
                 filter (\<lambda>t. t \<noteq> [] \<and> length t > 10)
                   (map get_text_strip
                      (filter (\<lambda>container. ''hero--article-category'' \<notin> set (get_class container))
                         (find_all_class_re text_patterns element)));
               text_parts =
                 (if from_containers = []
                  then filter (\<lambda>t. t \<noteq> [])
                         (map get_text_strip (find_all (''p'' # ''h1'' # heading_tags) element))
                  else from_containers);
               joined = join ''\<newline>\<newline>'' (fromkeys [] text_parts);
               summary_text = (if joined = [] then take 500 (get_text_sep_strip '' '' element) else joined)
           in Inr (self,
                doc @
                [component_marker component_name,
                 Table ''Table Grid''
                   [[runs_cell (case info of
                                  Some (img_url, img_alt) \<Rightarrow> [bold_run ''IMAGE:\<newline>'', plain_run img_url]
                                | None \<Rightarrow> [italic_run ''No Image'']),
                     text_cell summary_text]],
                 empty_paragraph])))"

definition process_special_component ::
  "worker \<Rightarrow> node list \<Rightarrow> block list \<Rightarrow> node \<Rightarrow> string \<Rightarrow> (worker \<times> block list) result" where
  "process_special_component self anc doc element component_name =
     (if component_name = ''Hero Article'' then hero_article self doc element
      else if component_name = ''Articles List'' then articles_list self doc element
      else if component_name = ''Text Image'' then text_image self anc doc element component_name
      else other_component self doc element component_name)"

subsection \<open>The tree walker\<close>

definition skipped_tags :: "string list" where
  "skipped_tags = [''script'', ''style'', ''nav'', ''footer'', ''header'', ''noscript'']"

definition exclusions :: "string set" where
  "exclusions = {''hero--article-wrapper--items'', ''article-author-bottom'',
     ''nppe-feedback-article-form'', ''related-topics--label'', ''related-topics--links'',
     ''article--progressbar'', ''component--newsletter''}"

definition target_classes :: "string set" where
  "target_classes = {''clearfix'', ''text-formatted'', ''field'', ''field--name-field-c-text'',
     ''field--type-text-long'', ''field--label-hidden'', ''field__item''}"

text \<open>The loop over the class tokens that names the component; \<open>None\<close> when no token matches.\<close>

fun component_name_of :: "string list \<Rightarrow> string option" where
  "component_name_of [] = None"
| "component_name_of (cls # rest) =
     (if startswith cls ''component--''
      then Some (title (replace (replace cls ''component--'' []) ''-'' '' ''))
      else if cls = ''article--hero'' then Some ''Hero Article''
      else if cls = ''hero--image'' then Some ''Hero Image''
      else component_name_of rest)"

text \<open>
  The name under which an element is handed to the component renderer: the element is a
  container, and the name found is not empty.
\<close>

definition special_component :: "node \<Rightarrow> string option" where
  "special_component element =
     (if name element \<in> set [''div'', ''section'', ''article'']
      then (case component_name_of (get_class element) of
              Some component_name \<Rightarrow> if component_name \<noteq> [] then Some component_name else None
            | None \<Rightarrow> None)
      else None)"

fun list_items :: "worker \<Rightarrow> string \<Rightarrow> node list \<Rightarrow> block list result" where
  "list_items self st [] = Inr []"
| "list_items self st (li # rest) =
     (case process_children_with_links self (new_paragraph (Some st) []) li of
        Inl e \<Rightarrow> Inl e
      | Inr p \<Rightarrow> (case list_items self st rest of
                    Inl e \<Rightarrow> Inl e
                  | Inr ps \<Rightarrow> Inr (Paragraph p # ps)))"

text \<open>The part of the walker that handles one tag without walking into its children.\<close>

definition text_block_tagging :: "worker \<Rightarrow> block list \<Rightarrow> node \<Rightarrow> worker \<times> block list" where
  "text_block_tagging self doc element =
     (if target_classes \<subseteq> set (get_class element)
      then (self\<lparr>text_block_count := text_block_count self + 1\<rparr>,
            doc @ [text_block_marker (text_block_count self + 1)])
      else (self, doc))"

fun process_element ::
  "worker \<Rightarrow> node list \<Rightarrow> block list \<Rightarrow> node \<Rightarrow> (worker \<times> block list) result"
and process_children ::
  "worker \<Rightarrow> node list \<Rightarrow> block list \<Rightarrow> node list \<Rightarrow> (worker \<times> block list) result" where
  "process_element self anc doc (Tag n cs as ks) =
     (let element = Tag n cs as ks in
      if n \<in> set skipped_tags then Inr (self, doc)
      else if set cs \<inter> exclusions \<noteq> {} then Inr (self, doc)
      else if get element ''id'' = Some ''nppe-feedback-article-form'' then Inr (self, doc)
      else
        (let self1 = fst (text_block_tagging self doc element);
             doc1 = snd (text_block_tagging self doc element)
         in case special_component element of
              Some component_name \<Rightarrow> process_special_component self1 anc doc1 element component_name
            | None \<Rightarrow>
                if n = ''h1'' then Inr (self1, doc1)
                else if n \<in> set heading_tags then
                  (case process_children_with_links self1
                          (new_paragraph (heading_style (heading_level n)) []) element of
                     Inl e \<Rightarrow> Inl e
                   | Inr p \<Rightarrow> Inr (self1, doc1 @ [Paragraph p]))
                else if n = ''p'' then
                  (case process_children_with_links self1 (new_paragraph None []) element of
                     Inl e \<Rightarrow> Inl e
                   | Inr p \<Rightarrow> Inr (self1, doc1 @ [Paragraph p]))
                else if n \<in> set [''ul'', ''ol''] then
                  (case list_items self1 (if n = ''ul'' then ''List Bullet'' else ''List Number'')
                          (find_all_children ''li'' element) of
                     Inl e \<Rightarrow> Inl e
                   | Inr ps \<Rightarrow> Inr (self1, doc1 @ ps))
                else if n = ''table'' then Inr (self1, process_table doc1 element)
                else process_children self1 (element # anc) doc1 ks))"
| "process_element self anc doc (NavigableString t) = Inr (self, doc)"
| "process_element self anc doc (Comment t) = Inr (self, doc)"
| "process_children self anc doc [] = Inr (self, doc)"
| "process_children self anc doc (Tag n cs as ks # rest) =
     (case process_element self anc doc (Tag n cs as ks) of
        Inl e \<Rightarrow> Inl e
      | Inr (self1, doc1) \<Rightarrow> process_children self1 anc doc1 rest)"
| "process_children self anc doc (NavigableString t # rest) =
     process_children self anc
       (if length (strip t) > 20 then doc @ [text_paragraph (strip t)] else doc) rest"
| "process_children self anc doc (Comment t # rest) =
     process_children self anc
       (if length (strip t) > 20 then doc @ [text_paragraph (strip t)] else doc) rest"


subsection \<open>The document of one extraction call\<close>

definition seo_header :: block where
  "seo_header =
     Paragraph (new_paragraph None
       [(plain_run ''SEO METADATA'')
          \<lparr>bold := True, font_size := Some 12, font_color := Some (0, 112, 192)\<rparr>])"

text \<open>\<open>tag.string.strip() if tag and tag.string else fallback\<close>.\<close>

definition stripped_string_or :: "node option \<Rightarrow> string \<Rightarrow> string" where
  "stripped_string_or tag fallback =
     (case tag of
        None \<Rightarrow> fallback
      | Some t \<Rightarrow> (case string_of t of
                    None \<Rightarrow> fallback
                  | Some s \<Rightarrow> if s \<noteq> [] then strip s else fallback))"

text \<open>\<open>tag.get('content', fallback) if tag else fallback\<close>.\<close>

definition content_or :: "node option \<Rightarrow> string \<Rightarrow> string" where
  "content_or tag fallback =
     (case tag of None \<Rightarrow> fallback | Some t \<Rightarrow> get_default t ''content'' fallback)"

definition schema_text_of :: "node \<Rightarrow> string" where
  "schema_text_of soup =
     (let schemas = find_all_attr ''script'' ''type'' ''application/ld+json'' soup in
      if schemas \<noteq> [] then
        (let schema_texts =
               concat (map (\<lambda>s. case string_of s of
                                   None \<Rightarrow> []
                                 | Some t \<Rightarrow> if t \<noteq> [] then [strip t] else []) schemas);
             schema_text = join ''\<newline>---\<newline>'' schema_texts
         in if length schema_text > 2000 then take 2000 schema_text @ ''...[truncated]''
            else schema_text)
      else ''No Schema'')"

text \<open>
  \<open>_add_seo_metadata_table\<close>: an exception inside it is logged and swallowed, and the
  document keeps what was added before.
\<close>

definition add_seo_metadata_table :: "worker \<Rightarrow> block list \<Rightarrow> node \<Rightarrow> block list" where
  "add_seo_metadata_table self doc soup =
     (case urlparse (url self) [] of
        Inl e \<Rightarrow> doc @ [seo_header]
      | Inr (scheme, netloc, url_path, params, query, fragment) \<Rightarrow>
          (let metadata_rows =
                 [(''Internal URL'', url_path),
                  (''Meta Title'', stripped_string_or (find [''title''] soup) ''No Meta Title''),
                  (''Meta Description'',
                     content_or (find_attr ''meta'' ''name'' ''description'' soup) ''No Meta Description''),
                  (''OG Title'',
                     content_or (find_attr ''meta'' ''property'' ''og:title'' soup) ''No OG Title''),
                  (''OG Description'',
                     content_or (find_attr ''meta'' ''property'' ''og:description'' soup) ''No OG Description''),
                  (''Schema'', schema_text_of soup)]
           in doc @ [seo_header,
                Table ''Light Grid Accent 1''
                  (map (\<lambda>(label, v). [runs_cell [bold_run label], text_cell v]) metadata_rows)]))"

definition source_paragraph :: "string \<Rightarrow> block" where
  "source_paragraph u =
     Paragraph \<lparr>style = None, alignment = Some CENTER,
       runs = [(plain_run (''Source: '' @ u))
                 \<lparr>bold := True, font_size := Some 14, font_color := Some (0, 112, 192)\<rparr>]\<rparr>"

text \<open>
  \<open>_save_to_docx\<close>: the result is the worker after the call and the document that is
  saved; an exception leaves no document.
\<close>

definition save_to_docx :: "worker \<Rightarrow> string \<Rightarrow> node \<Rightarrow> (worker \<times> block list) result" where
  "save_to_docx self u soup =
     (let doc0 = [source_paragraph u, empty_paragraph];
          doc1 = (case find [''h1''] soup of
                    Some h1 \<Rightarrow> doc0 @ [heading (get_text_strip h1) 1, empty_paragraph]
                  | None \<Rightarrow> doc0);
          self0 = self\<lparr>text_block_count := 0, text_image_count := 0\<rparr>;
          main_content = (case find_anc [] [''main''] soup of
                            Some m \<Rightarrow> Some m
                          | None \<Rightarrow> find_anc [] [''body''] soup)
      in case (case main_content of
                 Some (anc, element) \<Rightarrow> process_element self0 anc doc1 element
               | None \<Rightarrow> Inr (self0, doc1 @ [text_paragraph ''No main content found.''])) of
           Inl e \<Rightarrow> Inl e
         | Inr (self1, doc2) \<Rightarrow>
             Inr (self1, add_seo_metadata_table self1 (doc2 @ [empty_paragraph]) soup))"

section \<open>The exclusion filter of the simulation script\<close>

text \<open>
  \<open>simulate_full_extraction.py\<close> has the same walker with one more exclusion rule, a
  heuristic for feedback blocks that carry neither the class nor the id.
\<close>

definition feedback_phrase :: string where
  "feedback_phrase = ''Aidez-nous '' @ [char_of (0xE0 :: nat)] @ '' nous am'' @ [char_of (0xE9 :: nat)] @ ''liorer''"

text \<open>\<open>element.find(string=s)\<close> finds a string node equal to \<open>s\<close>.\<close>

fun is_string :: "string \<Rightarrow> node \<Rightarrow> bool" where
  "is_string s (NavigableString t) = (t = s)"
| "is_string s (Comment t) = (t = s)"
| "is_string s (Tag n cs as ks) = False"

definition simulation_skips :: "node \<Rightarrow> bool" where
  "simulation_skips element =
     (name element \<in> set skipped_tags
      \<or> set (get_class element) \<inter> (exclusions - {''component--newsletter''}) \<noteq> {}
      \<or> ''component--newsletter'' \<in> set (get_class element)
      \<or> get element ''id'' = Some ''nppe-feedback-article-form''
      \<or> (name element = ''div'' \<and> contains (get_text element) feedback_phrase
          \<and> length (get_text element) < 1000
          \<and> list_ex (is_string feedback_phrase) (map snd (descendants [] element))
          \<and> length (get_text element) < 300))"


section \<open>Notions used in the properties\<close>


definition href_of :: "node \<Rightarrow> string" where
  "href_of link = get_default link ''href'' []"

definition category_link :: "node list \<times> node \<Rightarrow> bool" where
  "category_link a =
     (case fst a of [] \<Rightarrow> False
      | parent # _ \<Rightarrow> ''field--name-field-article-category'' \<in> set (get_class parent))"

definition candidate :: "node list \<times> node \<Rightarrow> bool" where
  "candidate a = (\<not> category_link a \<and> href_of (snd a) \<noteq> [])"

definition first_candidates :: "string set \<Rightarrow> (node list \<times> node) list \<Rightarrow> nat set" where
  "first_candidates seen xs =
     {i. i < length xs \<and> candidate (xs ! i) \<and> href_of (snd (xs ! i)) \<notin> seen
         \<and> (\<forall>j<i. candidate (xs ! j) \<longrightarrow> href_of (snd (xs ! j)) \<noteq> href_of (snd (xs ! i)))}"


text \<open>The rows of an HTML table, the cells of a row, and the widest row.\<close>

definition table_rows :: "node \<Rightarrow> node list" where
  "table_rows table_element = find_all [''tr''] table_element"

definition row_cells :: "node \<Rightarrow> node list" where
  "row_cells row = find_all [''td'', ''th''] row"

definition column_count :: "node \<Rightarrow> nat" where
  "column_count table_element = Max (set (map (\<lambda>row. length (row_cells row)) (table_rows table_element)))"

text \<open>A row of the grid after the cells of an HTML row were written into it.\<close>

definition filled_row :: "nat \<Rightarrow> cell list \<Rightarrow> node list \<Rightarrow> cell list" where
  "filled_row col_count old cells =
     map (\<lambda>j. if j < length cells \<and> j < col_count then text_cell (get_text_strip (cells ! j)) else old ! j)
       [0 ..< length old]"

text \<open>The first three exclusion rules of the walker.\<close>

definition skipped :: "node \<Rightarrow> bool" where
  "skipped element =
     (name element \<in> set skipped_tags
      \<or> set (get_class element) \<inter> exclusions \<noteq> {}
      \<or> get element ''id'' = Some ''nppe-feedback-article-form'')"


text \<open>
  The parts of a reference, as the URL functions split it: the fragment is what follows the
  first \<open>#\<close>, the query what follows the first \<open>?\<close> before the fragment, the parameters
  what follows the first \<open>;\<close> of the last segment of the rest, and the path what is left.
\<close>

definition reference_fragment :: "string \<Rightarrow> string" where
  "reference_fragment ref = drop 1 (dropWhile (\<lambda>c. c \<noteq> CHR ''#'') ref)"

definition before_fragment :: "string \<Rightarrow> string" where
  "before_fragment ref = takeWhile (\<lambda>c. c \<noteq> CHR ''#'') ref"

definition reference_query :: "string \<Rightarrow> string" where
  "reference_query ref = drop 1 (dropWhile (\<lambda>c. c \<noteq> CHR ''?'') (before_fragment ref))"

definition before_query :: "string \<Rightarrow> string" where
  "before_query ref = takeWhile (\<lambda>c. c \<noteq> CHR ''?'') (before_fragment ref)"

definition reference_params :: "string \<Rightarrow> string" where
  "reference_params ref = snd (splitparams (before_query ref))"

definition reference_path :: "string \<Rightarrow> string" where
  "reference_path ref = fst (splitparams (before_query ref))"

text \<open>
  A reference that starts with exactly one slash, has no tab, carriage return or line feed,
  has no \<open>.\<close> or \<open>..\<close> segment in its path, and has no empty fragment, query or
  parameters: a \<open>#\<close>, a \<open>?\<close> or the \<open>;\<close> of the last segment is followed by at least one
  character of that part.
\<close>

definition rooted_reference :: "string \<Rightarrow> bool" where
  "rooted_reference ref =
     (take 1 ref = ''/'' \<and> take 2 ref \<noteq> ''//''
      \<and> list_all (\<lambda>c. \<not> unsafe_url_byte c) ref
      \<and> (CHR ''#'' \<in> set ref \<longrightarrow> reference_fragment ref \<noteq> [])
      \<and> (CHR ''?'' \<in> set (before_fragment ref) \<longrightarrow> reference_query ref \<noteq> [])
      \<and> (reference_params ref = [] \<longrightarrow> reference_path ref = before_query ref)
      \<and> ''.'' \<notin> set (split CHR ''/'' (reference_path ref))
      \<and> ''..'' \<notin> set (split CHR ''/'' (reference_path ref)))"

text \<open>
  The table of a Text Image rendering is the only table whose first cell starts with the
  image position. The markers of the Text Image renderings in a document are the blocks
  that stand right before such a table.
\<close>

fun is_text_image_table :: "block \<Rightarrow> bool" where
  "is_text_image_table (Table st (((p # ps) # cs) # rs)) =
     (case runs p of r # rest \<Rightarrow> r = bold_run ''Image Position: Left\<newline>'' | [] \<Rightarrow> False)"
| "is_text_image_table b = False"

fun text_image_markers :: "block list \<Rightarrow> block list" where
  "text_image_markers (b # t # rest) =
     (if is_text_image_table t then b # text_image_markers (t # rest)
      else text_image_markers (t # rest))"
| "text_image_markers bs = []"

text \<open>A Text Block marker is a paragraph of one bold run of size 9 in dark green.\<close>

fun is_text_block_marker :: "block \<Rightarrow> bool" where
  "is_text_block_marker (Paragraph p) =
     (length (runs p) = 1
      \<and> list_all (\<lambda>r. bold r \<and> font_size r = Some 9 \<and> font_color r = Some (0, 100, 0)) (runs p))"
| "is_text_block_marker (Table st grid) = False"

definition text_block_markers :: "block list \<Rightarrow> block list" where
  "text_block_markers doc = filter is_text_block_marker doc"

definition text_image_marker :: "nat \<Rightarrow> block" where
  "text_image_marker n = component_marker (''Text Image '' @ str_nat n)"

text \<open>
  What one step of the walk adds to the document: the Text Image and Text Block markers
  in it continue the numbering from the counters before the step to the counters after it.
\<close>

definition chunk_ok :: "nat \<Rightarrow> nat \<Rightarrow> nat \<Rightarrow> nat \<Rightarrow> block list \<Rightarrow> bool" where
  "chunk_ok ti tb ti1 tb1 out =
     (ti \<le> ti1 \<and> tb \<le> tb1
      \<and> text_image_markers out = map text_image_marker [Suc ti ..< Suc ti1]
      \<and> text_block_markers out = map text_block_marker [Suc tb ..< Suc tb1]
      \<and> (case out of [] \<Rightarrow> True | b # bs \<Rightarrow> \<not> is_text_image_table b)
      \<and> (ti = ti1 \<longrightarrow> list_all (\<lambda>b. \<not> is_text_image_table b) out))"

definition step_ok :: "worker \<Rightarrow> block list \<Rightarrow> worker \<Rightarrow> block list \<Rightarrow> bool" where
  "step_ok self doc self1 doc1 =
     (url self1 = url self \<and> base_url self1 = base_url self
      \<and> (\<exists>out. doc1 = doc @ out
            \<and> chunk_ok (text_image_count self) (text_block_count self)
                  (text_image_count self1) (text_block_count self1) out))"

text \<open>A block that is neither the table of a Text Image rendering nor a Text Block marker.\<close>

definition quiet :: "block \<Rightarrow> bool" where
  "quiet b = (\<not> is_text_image_table b \<and> \<not> is_text_block_marker b)"

text \<open>
  The label of a component marker: the text between \<open>[COMPONENT: \<close> and \<open>]\<close> of a
  paragraph that is the marker of that label. A label reads as a Text Image label when it
  is \<open>Text Image\<close>, a space, and a number as \<open>str\<close> writes it.
\<close>

definition marker_label :: "block \<Rightarrow> string option" where
  "marker_label b =
     (case b of
        Paragraph p \<Rightarrow>
          (case runs p of
             [r] \<Rightarrow>
               (let label = take (length (run_text r) - 13) (drop 12 (run_text r))
                in if b = component_marker label then Some label else None)
           | _ \<Rightarrow> None)
      | Table st grid \<Rightarrow> None)"

definition text_image_label :: "string \<Rightarrow> bool" where
  "text_image_label label =
     (startswith label ''Text Image ''
      \<and> str_nat (decimal_value (drop 11 label)) = drop 11 label)"

definition text_image_labelled :: "block \<Rightarrow> bool" where
  "text_image_labelled b =
     (case marker_label b of Some label \<Rightarrow> text_image_label label | None \<Rightarrow> False)"

text \<open>The markers of a document that read \<open>Text Image n\<close>, whoever wrote them.\<close>

definition labelled_markers :: "block list \<Rightarrow> block list" where
  "labelled_markers doc = filter text_image_labelled doc"

text \<open>
  The names under which the walk hands elements to the component renderer, in the order
  of the walk: the walk does not enter a skipped element, a component, a heading, a
  paragraph, a list or a table.
\<close>

fun component_names :: "node \<Rightarrow> string list" where
  "component_names (Tag n cs as ks) =
     (if skipped (Tag n cs as ks) then []
      else
        (case special_component (Tag n cs as ks) of
           Some component_name \<Rightarrow> [component_name]
         | None \<Rightarrow>
             if n = ''h1'' \<or> n \<in> set heading_tags \<or> n = ''p'' \<or> n \<in> set [''ul'', ''ol'']
                \<or> n = ''table''
             then []
             else concat (map component_names ks)))"
| "component_names (NavigableString t) = []"
| "component_names (Comment t) = []"

text \<open>The element the extraction walks: the first \<open>main\<close>, or else the first \<open>body\<close>.\<close>

definition main_content :: "node \<Rightarrow> (node list \<times> node) option" where
  "main_content soup =
     (case find_anc [] [''main''] soup of
        Some m \<Rightarrow> Some m
      | None \<Rightarrow> find_anc [] [''body''] soup)"

definition page_component_names :: "node \<Rightarrow> string list" where
  "page_component_names soup =
     (case main_content soup of Some (anc, element) \<Rightarrow> component_names element | None \<Rightarrow> [])"

text \<open>
  What one step of the walk adds to the document when no component is named like a Text
  Image marker: the markers that read \<open>Text Image n\<close> are those of the Text Image
  renderings.
\<close>

definition labels_ok :: "block list \<Rightarrow> bool" where
  "labels_ok out =
     (labelled_markers out = text_image_markers out
      \<and> (case out of [] \<Rightarrow> True | b # bs \<Rightarrow> \<not> is_text_image_table b))"

definition labels_step :: "block list \<Rightarrow> block list \<Rightarrow> bool" where
  "labels_step doc doc1 = (\<exists>out. doc1 = doc @ out \<and> labels_ok out)"

text \<open>A block that is neither the table of a Text Image rendering nor a marker that reads \<open>Text Image n\<close>.\<close>

definition unlabelled :: "block \<Rightarrow> bool" where
  "unlabelled b = (\<not> is_text_image_table b \<and> \<not> text_image_labelled b)"

section \<open>Examples\<close>

definition example_worker :: worker where
  "example_worker = \<lparr>url = ''http://example.com/page'', base_url = ''http://example.com'',
     text_block_count = 0, text_image_count = 0\<rparr>"

definition excluded_example :: node where
  "excluded_example =
     Tag ''div'' [''nppe-feedback-article-form''] []
       [Tag ''div'' [''component--text-image''] []
          [Tag ''p'' [] [] [NavigableString ''Aidez-nous'']]]"

definition excluded_by_id_example :: node where
  "excluded_by_id_example =
     Tag ''section'' [] [(''id'', ''nppe-feedback-article-form'')]
       [Tag ''p'' [] [] [NavigableString ''Aidez-nous'']]"


definition no_links_example :: node where
  "no_links_example =
     Tag ''div'' [''component--articles-list''] []
       [Tag ''div'' [''field--name-field-article-category''] []
          [Tag ''a'' [] [(''href'', ''/category'')] [NavigableString ''Dogs'']],
        Tag ''a'' [] [] [NavigableString ''no target''],
        Tag ''a'' [] [(''href'', [])] [NavigableString ''empty target'']]"

definition duplicate_links_example :: node where
  "duplicate_links_example =
     Tag ''div'' [''component--articles-list''] []
       [Tag ''a'' [] [(''href'', ''/article-1'')] [NavigableString ''One''],
        Tag ''a'' [] [(''href'', ''/article-1'')] [NavigableString ''Two'']]"

definition same_target_example :: node where
  "same_target_example =
     Tag ''div'' [''component--articles-list''] []
       [Tag ''a'' [] [(''href'', ''/article-1'')] [NavigableString ''One''],
        Tag ''a'' [] [(''href'', ''http://example.com/article-1'')] [NavigableString ''Two'']]"

definition empty_table_example :: node where
  "empty_table_example = Tag ''table'' [] [] [Tag ''caption'' [] [] [NavigableString ''No rows'']]"

definition ragged_table_example :: node where
  "ragged_table_example =
     Tag ''table'' [] []
       [Tag ''tr'' [] []
          [Tag ''td'' [] [] [NavigableString ''a''],
           Tag ''td'' [] [] [NavigableString '' b ''],
           Tag ''td'' [] [] [NavigableString ''c'']],
        Tag ''tr'' [] []
          [Tag ''td'' [] [] [NavigableString ''d''],
           Tag ''td'' [] [] [NavigableString ''e'']]]"

definition header_table_example :: node where
  "header_table_example =
     Tag ''table'' [] [] [Tag ''tr'' [] [] [Tag ''th'' [] [] [NavigableString ''Name'']]]"

definition feedback_example :: node where
  "feedback_example = Tag ''div'' [] [] [Tag ''p'' [] [] [NavigableString feedback_phrase]]"

definition text_block_classes :: "string list" where
  "text_block_classes = [''clearfix'', ''text-formatted'', ''field'', ''field--name-field-c-text'',
     ''field--type-text-long'', ''field--label-hidden'', ''field__item'']"

definition text_image_example :: node where
  "text_image_example =
     Tag ''div'' [''component'', ''component--text-image''] []
       [Tag ''img'' [] [(''src'', ''http://example.com/a.jpg''), (''alt'', ''x'')] [],
        Tag ''p'' [] [] [NavigableString ''Body'']]"

definition text_block_example :: node where
  "text_block_example =
     Tag ''div'' text_block_classes []
       [Tag ''ul'' [] [] [Tag ''li'' [] [] [NavigableString ''item'']]]"

definition excluded_text_block_example :: node where
  "excluded_text_block_example =
     Tag ''div'' (text_block_classes @ [''component--newsletter'']) []
       [Tag ''p'' [] [] [NavigableString ''Subscribe'']]"

definition text_block_component_example :: node where
  "text_block_component_example =
     Tag ''div'' (text_block_classes @ [''component--quote'']) []
       [Tag ''p'' [] [] [NavigableString ''Some quoted words'']]"

definition example_soup :: node where
  "example_soup =
     Tag ''[document]'' [] []
       [Tag ''body'' [] []
          [text_image_example,
           Tag ''div'' [''component--text-image-2''] [] [],
           text_block_example,
           text_image_example]]"

definition used_worker :: worker where
  "used_worker = example_worker\<lparr>text_block_count := 5, text_image_count := 7\<rparr>"

definition example_doc :: "block list" where
  "example_doc =
     [source_paragraph ''http://example.com/page'', empty_paragraph,
      text_image_marker 1, text_image_table (Some (''http://example.com/a.jpg'', ''x'')),
      empty_paragraph, text_paragraph ''Body'', empty_paragraph,
      component_marker ''Text Image 2'',
      Table ''Table Grid'' [[runs_cell [italic_run ''No Image''], text_cell []]],
      empty_paragraph,
      text_block_marker 1,
      Paragraph (new_paragraph (Some ''List Bullet'') [plain_run ''item'']),
      text_image_marker 2, text_image_table (Some (''http://example.com/a.jpg'', ''x'')),
      empty_paragraph, text_paragraph ''Body'', empty_paragraph,
      empty_paragraph, seo_header,
      Table ''Light Grid Accent 1''
        [[runs_cell [bold_run ''Internal URL''], text_cell ''/page''],
         [runs_cell [bold_run ''Meta Title''], text_cell ''No Meta Title''],
         [runs_cell [bold_run ''Meta Description''], text_cell ''No Meta Description''],
         [runs_cell [bold_run ''OG Title''], text_cell ''No OG Title''],
         [runs_cell [bold_run ''OG Description''], text_cell ''No OG Description''],
         [runs_cell [bold_run ''Schema''], text_cell ''No Schema'']]]"


text \<open>The end of the document of a page at \<open>http://example.com/page\<close> without metadata.\<close>

definition example_metadata :: "block list" where
  "example_metadata =
     [empty_paragraph, seo_header,
      Table ''Light Grid Accent 1''
        [[runs_cell [bold_run ''Internal URL''], text_cell ''/page''],
         [runs_cell [bold_run ''Meta Title''], text_cell ''No Meta Title''],
         [runs_cell [bold_run ''Meta Description''], text_cell ''No Meta Description''],
         [runs_cell [bold_run ''OG Title''], text_cell ''No OG Title''],
         [runs_cell [bold_run ''OG Description''], text_cell ''No OG Description''],
         [runs_cell [bold_run ''Schema''], text_cell ''No Schema'']]]"

definition numbered_soup :: node where
  "numbered_soup =
     Tag ''[document]'' [] []
       [Tag ''body'' [] []
          [text_image_example,
           Tag ''div'' [''component--quote''] [] [],
           text_block_example,
           text_image_example]]"

definition numbered_doc :: "block list" where
  "numbered_doc =
     [source_paragraph ''http://example.com/page'', empty_paragraph,
      text_image_marker 1, text_image_table (Some (''http://example.com/a.jpg'', ''x'')),
      empty_paragraph, text_paragraph ''Body'', empty_paragraph,
      component_marker ''Quote'',
      Table ''Table Grid'' [[runs_cell [italic_run ''No Image''], text_cell []]],
      empty_paragraph,
      text_block_marker 1,
      Paragraph (new_paragraph (Some ''List Bullet'') [plain_run ''item'']),
      text_image_marker 2, text_image_table (Some (''http://example.com/a.jpg'', ''x'')),
      empty_paragraph, text_paragraph ''Body'', empty_paragraph]
     @ example_metadata"

definition lone_label_soup :: node where
  "lone_label_soup =
     Tag ''[document]'' [] []
       [Tag ''body'' [] [] [Tag ''div'' [''component--text-image-7''] [] []]]"

definition lone_label_doc :: "block list" where
  "lone_label_doc =
     [source_paragraph ''http://example.com/page'', empty_paragraph,
      component_marker ''Text Image 7'',
      Table ''Table Grid'' [[runs_cell [italic_run ''No Image''], text_cell []]],
      empty_paragraph]
     @ example_metadata"
section \<open>The exclusion law\<close>

text \<open>
  C4. When the walker visits an element whose class tokens meet the exclusion set, or whose
  id is that of the feedback widget, it returns with the document and the counters exactly
  as they were: nothing is added for the element or for anything below it, whatever the
  children are.
\<close>

theorem exclusion_law:
  assumes "set (get_class element) \<inter> exclusions \<noteq> {}
           \<or> get element ''id'' = Some ''nppe-feedback-article-form''"
  shows "process_element self anc doc element = Inr (self, doc)"
  using assms by (cases element) (simp_all add: Let_def)

theorem exclusion_law_witness:
  "process_element example_worker [] [] excluded_example = Inr (example_worker, [])
   \<and> process_element example_worker [] [] excluded_by_id_example = Inr (example_worker, [])"
  using exclusion_law [of excluded_example example_worker "[]" "[]"]
    exclusion_law [of excluded_by_id_example example_worker "[]" "[]"]
  by (simp add: excluded_example_def excluded_by_id_example_def exclusions_def)


section \<open>The Articles List renderer\<close>

lemma collect_step:
  "collect_article_links seen acc (x # rest) =
     (if candidate x \<and> href_of (snd x) \<notin> seen
      then collect_article_links (insert (href_of (snd x)) seen) (acc @ [x]) rest
      else collect_article_links seen acc rest)"
  by (cases x) (auto simp: candidate_def category_link_def href_of_def Let_def split: list.splits)

lemma first_candidates_Cons:
  "{j. Suc j \<in> first_candidates seen (x # rest)} =
     first_candidates (if candidate x \<and> href_of (snd x) \<notin> seen then insert (href_of (snd x)) seen else seen) rest"
  by (auto simp: first_candidates_def All_less_Suc2)

lemma first_candidates_0:
  "0 \<in> first_candidates seen (x # rest) \<longleftrightarrow> candidate x \<and> href_of (snd x) \<notin> seen"
  by (auto simp: first_candidates_def)

lemma collect_article_links_nths:
  "collect_article_links seen acc xs = acc @ nths xs (first_candidates seen xs)"
proof (induction xs arbitrary: seen acc)
  case Nil
  then show ?case by simp
next
  case (Cons x rest)
  show ?case
    unfolding collect_step nths_Cons first_candidates_Cons first_candidates_0
    by (simp add: Cons.IH)
qed

lemma article_links_nths:
  "article_links element = nths (all_links element) (first_candidates {} (all_links element))"
  by (simp add: article_links_def collect_article_links_nths)

lemma article_rows_all2:
  "article_rows self element ls = Inr rows \<Longrightarrow>
   list_all2 (\<lambda>a row. \<exists>u. make_absolute self (Some (href_of (snd a))) = Inr u
                 \<and> row = [text_cell (title_lookup element (get_text_strip (snd a)) (fst a)), text_cell u])
     ls rows"
proof (induction ls arbitrary: rows)
  case Nil
  then show ?case by simp
next
  case (Cons a ls)
  then show ?case
    by (cases a) (auto simp: href_of_def split: sum.splits)
qed

lemma article_links_candidates:
  "a \<in> set (article_links element) \<Longrightarrow> candidate a"
  unfolding article_links_nths
  by (auto simp: set_nths first_candidates_def)

lemma article_links_empty_iff:
  "article_links element = [] \<longleftrightarrow> (\<forall>a \<in> set (all_links element). \<not> candidate a)"
proof
  assume e: "article_links element = []"
  show "\<forall>a \<in> set (all_links element). \<not> candidate a"
  proof (rule ccontr)
    assume "\<not> (\<forall>a \<in> set (all_links element). \<not> candidate a)"
    then obtain i where i: "i < length (all_links element)" "candidate (all_links element ! i)"
      by (auto simp: in_set_conv_nth)
    define k where "k = (LEAST i. i < length (all_links element) \<and> candidate (all_links element ! i))"
    have k: "k < length (all_links element) \<and> candidate (all_links element ! k)"
      unfolding k_def using i by (rule_tac LeastI [where k = i]) simp
    have "\<And>j. j < k \<Longrightarrow> \<not> (j < length (all_links element) \<and> candidate (all_links element ! j))"
      unfolding k_def by (rule not_less_Least)
    with k have "k \<in> first_candidates {} (all_links element)"
      by (auto simp: first_candidates_def candidate_def)
    with k have "all_links element ! k \<in> set (article_links element)"
      unfolding article_links_nths by (auto simp: set_nths)
    with e show False by simp
  qed
next
  assume "\<forall>a \<in> set (all_links element). \<not> candidate a"
  then have "first_candidates {} (all_links element) = {}"
    by (auto simp: first_candidates_def)
  then show "article_links element = []"
    by (simp add: article_links_nths)
qed

text \<open>
  C10. In the Articles List renderer a link whose \<open>href\<close> is missing or empty is never kept;
  no link is kept exactly when every link is a category link or has no \<open>href\<close>; and when no
  link is kept the renderer adds one empty paragraph to the document and nothing else.
\<close>

theorem articles_list_without_links:
  "(\<forall>a \<in> set (article_links element).
       get (snd a) ''href'' \<noteq> None \<and> get (snd a) ''href'' \<noteq> Some [])
   \<and> (article_links element = []
        \<longleftrightarrow> (\<forall>a \<in> set (all_links element). category_link a \<or> href_of (snd a) = []))
   \<and> (article_links element = [] \<longrightarrow>
        process_special_component self anc doc element ''Articles List''
          = Inr (self, doc @ [empty_paragraph]))"
proof (intro conjI ballI impI)
  fix a assume "a \<in> set (article_links element)"
  then have "href_of (snd a) \<noteq> []"
    using article_links_candidates candidate_def by blast
  then show "get (snd a) ''href'' \<noteq> None" and "get (snd a) ''href'' \<noteq> Some []"
    by (auto simp: href_of_def get_default_def split: option.splits)
next
  show "article_links element = []
        \<longleftrightarrow> (\<forall>a \<in> set (all_links element). category_link a \<or> href_of (snd a) = [])"
    by (simp add: article_links_empty_iff candidate_def)
next
  assume "article_links element = []"
  then show "process_special_component self anc doc element ''Articles List''
               = Inr (self, doc @ [empty_paragraph])"
    by (simp add: process_special_component_def articles_list_def)
qed

theorem articles_list_without_links_witness:
  "article_links no_links_example = []
   \<and> process_special_component example_worker [] [] no_links_example ''Articles List''
       = Inr (example_worker, [empty_paragraph])"
proof -
  have h: "article_links no_links_example = []"
    by code_simp
  from articles_list_without_links [of no_links_example example_worker "[]" "[]"] h
  show ?thesis by simp
qed

text \<open>
  C1, as the specification states it: two links that resolve to the same absolute URL give
  one row. The two links of the example resolve to the same URL and both get a row.
\<close>

theorem same_target_two_rows:
  "make_absolute example_worker (Some ''/article-1'') = Inr ''http://example.com/article-1''
   \<and> make_absolute example_worker (Some ''http://example.com/article-1'')
       = Inr ''http://example.com/article-1''
   \<and> process_special_component example_worker [] [] same_target_example ''Articles List''
       = Inr (example_worker,
           [Table ''Light Grid Accent 1''
              [[runs_cell [bold_run ''Title''], runs_cell [bold_run ''URL'']],
               [bold_cell (text_cell ''Component: Articles List''), text_cell []],
               [text_cell ''One'', text_cell ''http://example.com/article-1''],
               [text_cell ''Two'', text_cell ''http://example.com/article-1'']],
            empty_paragraph])"
  by code_simp

text \<open>
  C1, amended. The links kept by the Articles List renderer are the links that are not
  category links and have a non-empty \<open>href\<close>, each kept only at the first position where
  its \<open>href\<close> attribute, as written, occurs among them; the visible text plays no part.
  When a link is kept, the renderer adds one table, with the two heading rows and then one
  row per kept link, in order, holding the title and the resolved URL of that link.
\<close>

theorem articles_list_dedup:
  "article_links element = nths (all_links element) (first_candidates {} (all_links element))
   \<and> (process_special_component self anc doc element ''Articles List'' = Inr (self1, doc1)
        \<longrightarrow> article_links element \<noteq> []
        \<longrightarrow> (\<exists>title_row rows.
               doc1 = doc @ [Table ''Light Grid Accent 1''
                               ([runs_cell [bold_run ''Title''], runs_cell [bold_run ''URL'']]
                                # title_row # rows),
                             empty_paragraph]
               \<and> list_all2
                    (\<lambda>a row. \<exists>u. make_absolute self (Some (href_of (snd a))) = Inr u
                       \<and> row = [text_cell (title_lookup element (get_text_strip (snd a)) (fst a)),
                                text_cell u])
                    (article_links element) rows))"
proof (intro conjI impI)
  show "article_links element = nths (all_links element) (first_candidates {} (all_links element))"
    by (rule article_links_nths)
next
  assume r: "process_special_component self anc doc element ''Articles List'' = Inr (self1, doc1)"
    and ne: "article_links element \<noteq> []"
  from r ne obtain rows where
    rows: "article_rows self element (article_links element) = Inr rows"
    and doc1: "doc1 = doc @ [Table ''Light Grid Accent 1''
                 ([runs_cell [bold_run ''Title''], runs_cell [bold_run ''URL'']]
                  # [bold_cell (text_cell (''Component: '' @
                       (case find [''h2'', ''h3'', ''h4''] element of
                          Some component_title \<Rightarrow> get_text_strip component_title
                        | None \<Rightarrow> ''Articles List''))), text_cell []]
                  # rows), empty_paragraph]"
    by (auto simp: process_special_component_def articles_list_def Let_def split: sum.splits)
  from article_rows_all2 [OF rows] doc1
  show "\<exists>title_row rows.
          doc1 = doc @ [Table ''Light Grid Accent 1''
                          ([runs_cell [bold_run ''Title''], runs_cell [bold_run ''URL'']]
                           # title_row # rows),
                        empty_paragraph]
          \<and> list_all2
               (\<lambda>a row. \<exists>u. make_absolute self (Some (href_of (snd a))) = Inr u
                  \<and> row = [text_cell (title_lookup element (get_text_strip (snd a)) (fst a)),
                           text_cell u])
               (article_links element) rows"
    by blast
qed

theorem articles_list_dedup_witness:
  "process_special_component example_worker [] [] duplicate_links_example ''Articles List''
     = Inr (example_worker,
         [Table ''Light Grid Accent 1''
            [[runs_cell [bold_run ''Title''], runs_cell [bold_run ''URL'']],
             [bold_cell (text_cell ''Component: Articles List''), text_cell []],
             [text_cell ''One'', text_cell ''http://example.com/article-1'']],
          empty_paragraph])
   \<and> length (all_links duplicate_links_example) = 2
   \<and> length (article_links duplicate_links_example) = 1
   \<and> article_links duplicate_links_example
       = nths (all_links duplicate_links_example)
           (first_candidates {} (all_links duplicate_links_example))
   \<and> (\<exists>title_row rows.
         [Table ''Light Grid Accent 1''
            [[runs_cell [bold_run ''Title''], runs_cell [bold_run ''URL'']],
             [bold_cell (text_cell ''Component: Articles List''), text_cell []],
             [text_cell ''One'', text_cell ''http://example.com/article-1'']],
          empty_paragraph]
         = [] @ [Table ''Light Grid Accent 1''
                   ([runs_cell [bold_run ''Title''], runs_cell [bold_run ''URL'']]
                    # title_row # rows),
                 empty_paragraph]
         \<and> list_all2
              (\<lambda>a row. \<exists>u. make_absolute example_worker (Some (href_of (snd a))) = Inr u
                 \<and> row = [text_cell (title_lookup duplicate_links_example (get_text_strip (snd a)) (fst a)),
                          text_cell u])
              (article_links duplicate_links_example) rows)"
proof -
  have r: "process_special_component example_worker [] [] duplicate_links_example ''Articles List''
     = Inr (example_worker,
         [Table ''Light Grid Accent 1''
            [[runs_cell [bold_run ''Title''], runs_cell [bold_run ''URL'']],
             [bold_cell (text_cell ''Component: Articles List''), text_cell []],
             [text_cell ''One'', text_cell ''http://example.com/article-1'']],
          empty_paragraph])"
    by code_simp
  have n: "length (all_links duplicate_links_example) = 2"
    by code_simp
  have k: "length (article_links duplicate_links_example) = 1"
    by code_simp
  then have ne: "article_links duplicate_links_example \<noteq> []"
    by auto
  from articles_list_dedup [of duplicate_links_example example_worker "[]" "[]" example_worker
      "[Table ''Light Grid Accent 1''
            [[runs_cell [bold_run ''Title''], runs_cell [bold_run ''URL'']],
             [bold_cell (text_cell ''Component: Articles List''), text_cell []],
             [text_cell ''One'', text_cell ''http://example.com/article-1'']],
          empty_paragraph]"] r n k ne
  show ?thesis by blast
qed

section \<open>Generic tables\<close>

lemma enumerate_snoc: "enumerate n (xs @ [x]) = enumerate n xs @ [(n + length xs, x)]"
  by (simp add: enumerate_append_eq)

lemma filled_row_Nil: "filled_row col_count old [] = old"
  by (simp add: filled_row_def map_nth)

lemma filled_row_snoc:
  "(if length cells < col_count
    then (filled_row col_count old cells)[length cells := text_cell (get_text_strip c)]
    else filled_row col_count old cells)
   = filled_row col_count old (cells @ [c])"
  by (rule nth_equalityI) (auto simp: filled_row_def nth_list_update nth_append)

lemma fill_row_closed:
  "fill_row col_count grid i cells = grid[i := filled_row col_count (grid ! i) cells]"
proof (induction cells rule: rev_induct)
  case Nil
  then show ?case by (simp add: fill_row_def filled_row_Nil)
next
  case (snoc c cells)
  have "fill_row col_count grid i (cells @ [c]) =
          (if length cells < col_count
           then set_cell (fill_row col_count grid i cells) i (length cells) (text_cell (get_text_strip c))
           else fill_row col_count grid i cells)"
    by (simp add: fill_row_def enumerate_snoc)
  also have "\<dots> = grid[i := (if length cells < col_count
           then (filled_row col_count (grid ! i) cells)[length cells := text_cell (get_text_strip c)]
           else filled_row col_count (grid ! i) cells)]"
    by (cases "i < length grid") (simp_all add: snoc.IH set_cell_def list_update_beyond not_less)
  finally show ?case by (simp only: filled_row_snoc)
qed

lemma fill_rows_closed:
  "length rows \<le> length grid \<Longrightarrow>
   fold (\<lambda>(i, row) g. fill_row col_count g i (f row)) (enumerate 0 rows) grid
     = map (\<lambda>(i, row). filled_row col_count (grid ! i) (f row)) (enumerate 0 rows)
       @ drop (length rows) grid"
proof (induction rows rule: rev_induct)
  case Nil
  then show ?case by simp
next
  case (snoc r rows)
  then have len: "length rows < length grid" by simp
  have "fold (\<lambda>(i, row) g. fill_row col_count g i (f row)) (enumerate 0 (rows @ [r])) grid
        = fill_row col_count
            (map (\<lambda>(i, row). filled_row col_count (grid ! i) (f row)) (enumerate 0 rows)
              @ drop (length rows) grid) (length rows) (f r)"
    using snoc by (simp add: enumerate_snoc)
  also have "\<dots> = map (\<lambda>(i, row). filled_row col_count (grid ! i) (f row)) (enumerate 0 rows)
       @ (drop (length rows) grid)[0 := filled_row col_count (grid ! length rows) (f r)]"
    using len by (simp add: fill_row_closed nth_append list_update_append)
  also have "(drop (length rows) grid)[0 := filled_row col_count (grid ! length rows) (f r)]
        = filled_row col_count (grid ! length rows) (f r) # drop (Suc (length rows)) grid"
    using len by (simp add: Cons_nth_drop_Suc [symmetric])
  finally show ?case
    by (simp add: enumerate_snoc)
qed

lemma process_table_closed:
  assumes "table_rows table_element \<noteq> []"
  shows "process_table doc table_element =
     doc @ [Table ''Light Grid Accent 1''
       (map (\<lambda>row. map (\<lambda>j. if j < length (row_cells row)
                              then text_cell (get_text_strip (row_cells row ! j))
                              else empty_cell)
                      [0 ..< column_count table_element])
            (table_rows table_element))]"
proof -
  let ?rows = "find_all [''tr''] table_element"
  let ?cc = "Max (set (map (\<lambda>row. length (find_all [''td'', ''th''] row)) ?rows))"
  have "fold (\<lambda>(i, row) g. fill_row ?cc g i (find_all [''td'', ''th''] row)) (enumerate 0 ?rows)
          (add_table (length ?rows) ?cc)
        = map (\<lambda>(i, row). filled_row ?cc (add_table (length ?rows) ?cc ! i) (find_all [''td'', ''th''] row))
            (enumerate 0 ?rows)"
    by (subst fill_rows_closed) (simp_all add: add_table_def)
  also have "\<dots> = map (\<lambda>row. map (\<lambda>j. if j < length (find_all [''td'', ''th''] row)
                              then text_cell (get_text_strip (find_all [''td'', ''th''] row ! j))
                              else empty_cell) [0 ..< ?cc]) ?rows"
    by (rule nth_equalityI) (simp_all add: nth_enumerate_eq add_table_def filled_row_def)
  finally show ?thesis
    using assms by (simp add: process_table_def Let_def table_rows_def row_cells_def column_count_def)
qed

text \<open>
  C7. A table with no row adds nothing to the document. A table with at least one row adds
  one Table block with one row per \<open>tr\<close> and as many columns as the longest row has
  \<open>td\<close>/\<open>th\<close> cells; a cell holds the stripped text of the HTML cell at its position, and
  the cells of a row beyond its last HTML cell stay empty. The walker renders every
  \<open>table\<close> tag it does not skip in this way.
\<close>

theorem generic_table:
  "(table_rows table_element = [] \<longrightarrow> process_table doc table_element = doc)
   \<and> (table_rows table_element \<noteq> [] \<longrightarrow>
        (\<exists>grid. process_table doc table_element = doc @ [Table ''Light Grid Accent 1'' grid]
           \<and> length grid = length (table_rows table_element)
           \<and> (\<forall>i < length (table_rows table_element).
                length (grid ! i) = column_count table_element
                \<and> (\<forall>j < column_count table_element.
                     grid ! i ! j =
                       (if j < length (row_cells (table_rows table_element ! i))
                        then text_cell (get_text_strip (row_cells (table_rows table_element ! i) ! j))
                        else empty_cell)))))
   \<and> (name table_element = ''table'' \<and> \<not> skipped table_element \<longrightarrow>
        process_element self anc doc table_element
          = Inr (fst (text_block_tagging self doc table_element),
                 process_table (snd (text_block_tagging self doc table_element)) table_element))"
proof (intro conjI impI)
  assume "table_rows table_element = []"
  then show "process_table doc table_element = doc"
    by (simp add: process_table_def table_rows_def)
next
  assume "table_rows table_element \<noteq> []"
  from process_table_closed [OF this, of doc]
  show "\<exists>grid. process_table doc table_element = doc @ [Table ''Light Grid Accent 1'' grid]
           \<and> length grid = length (table_rows table_element)
           \<and> (\<forall>i < length (table_rows table_element).
                length (grid ! i) = column_count table_element
                \<and> (\<forall>j < column_count table_element.
                     grid ! i ! j =
                       (if j < length (row_cells (table_rows table_element ! i))
                        then text_cell (get_text_strip (row_cells (table_rows table_element ! i) ! j))
                        else empty_cell)))"
    by simp
next
  assume a: "name table_element = ''table'' \<and> \<not> skipped table_element"
  then obtain cs as ks where e: "table_element = Tag ''table'' cs as ks"
    by (cases table_element) auto
  from a show "process_element self anc doc table_element
          = Inr (fst (text_block_tagging self doc table_element),
                 process_table (snd (text_block_tagging self doc table_element)) table_element)"
    unfolding e
    by (simp add: skipped_def special_component_def heading_tags_def Let_def)
qed

theorem generic_table_witness:
  "table_rows empty_table_example = []
   \<and> process_table [] empty_table_example = []
   \<and> table_rows ragged_table_example \<noteq> []
   \<and> column_count ragged_table_example = 3
   \<and> name ragged_table_example = ''table'' \<and> \<not> skipped ragged_table_example
   \<and> process_element example_worker [] [] ragged_table_example
        = Inr (example_worker,
            [Table ''Light Grid Accent 1''
               [[text_cell ''a'', text_cell ''b'', text_cell ''c''],
                [text_cell ''d'', text_cell ''e'', empty_cell]]])
   \<and> (\<exists>grid. process_table [] ragged_table_example = [] @ [Table ''Light Grid Accent 1'' grid]
           \<and> length grid = length (table_rows ragged_table_example)
           \<and> (\<forall>i < length (table_rows ragged_table_example).
                length (grid ! i) = column_count ragged_table_example
                \<and> (\<forall>j < column_count ragged_table_example.
                     grid ! i ! j =
                       (if j < length (row_cells (table_rows ragged_table_example ! i))
                        then text_cell (get_text_strip (row_cells (table_rows ragged_table_example ! i) ! j))
                        else empty_cell))))"
proof -
  have e: "table_rows empty_table_example = []"
    by code_simp
  have r: "table_rows ragged_table_example \<noteq> []"
    by code_simp
  have c: "column_count ragged_table_example = 3"
    by code_simp
  have s: "name ragged_table_example = ''table'' \<and> \<not> skipped ragged_table_example"
    by code_simp
  have t: "text_block_tagging example_worker [] ragged_table_example = (example_worker, [])"
    by code_simp
  have p: "process_table [] ragged_table_example
        = [Table ''Light Grid Accent 1''
               [[text_cell ''a'', text_cell ''b'', text_cell ''c''],
                [text_cell ''d'', text_cell ''e'', empty_cell]]]"
    by code_simp
  from generic_table [of empty_table_example "[]" example_worker "[]"]
    generic_table [of ragged_table_example "[]" example_worker "[]"] e r c s t p
  show ?thesis by simp
qed

text \<open>
  C8. The content extractor writes the stripped text of a header cell as a plain run: the
  header cell of the example is not bold. The table routine of the crawler worker sets the
  same cell in bold.
\<close>

theorem header_cell_not_bold:
  "process_table [] header_table_example
     = [Table ''Light Grid Accent 1'' [[[new_paragraph None [plain_run ''Name'']]]]]
   \<and> bold (plain_run ''Name'') = False
   \<and> crawler_process_table [] header_table_example
     = [Table ''Light Grid Accent 1'' [[[new_paragraph None [bold_run ''Name'']]]]]
   \<and> bold (bold_run ''Name'') = True"
  by code_simp

text \<open>
  C9. The walker of the content extractor has no rule for the feedback phrase: a small
  \<open>div\<close> that holds the phrase and carries neither an exclusion class nor the feedback id
  is walked, and its paragraph is added to the document. The exclusion filter of the
  simulation script skips the same element.
\<close>

lemma simulation_skips_feedback_example: "simulation_skips feedback_example"
  by code_simp

theorem feedback_phrase_not_skipped:
  "process_element example_worker [] [] feedback_example
    = Inr (example_worker, [Paragraph (new_paragraph None [plain_run feedback_phrase])])
   \<and> length (get_text feedback_example) = 27"
  by code_simp

section \<open>The URL resolver\<close>

lemma join_split: "join [sep] (split sep s) = s"
proof (induction s)
  case Nil
  then show ?case by simp
next
  case (Cons c s)
  then show ?case
    by (cases "split sep s"; cases "tl (split sep s)") (auto split: if_splits)
qed

lemma split_not_Nil: "split sep s \<noteq> []"
  by (induction s) (auto split: list.splits)

lemma resolve_segments_plain:
  "''.'' \<notin> set segs \<Longrightarrow> ''..'' \<notin> set segs \<Longrightarrow> resolve_segments acc segs = acc @ segs"
  by (induction segs arbitrary: acc) auto

lemmas char_tests = code_point_def c0_control_or_space_def unsafe_url_byte_def is_alpha_def
  is_upper_def is_lower_def is_digit_def scheme_char_def lower_char_def

lemma http_scheme_facts:
  assumes "scheme = ''http'' \<or> scheme = ''https''"
  shows "scheme \<noteq> []" and "is_alpha (hd scheme)" and "list_all scheme_char scheme"
    and "map lower_char scheme = scheme" and "CHR '':'' \<notin> set scheme"
    and "\<forall>c \<in> set scheme. \<not> unsafe_url_byte c" and "\<not> c0_control_or_space (hd scheme)"
    and "scheme \<in> set uses_relative" and "scheme \<in> set uses_netloc" and "scheme \<in> set uses_params"
    and "filter (\<lambda>c. \<not> unsafe_url_byte c)
           (rev (dropWhile c0_control_or_space (rev (dropWhile c0_control_or_space scheme)))) = scheme"
  using assms by (auto simp: char_tests uses_relative_def uses_netloc_def uses_params_def)

lemma splitnetloc_plain:
  assumes "\<forall>c \<in> set netloc. c \<notin> set ''/?#''"
  shows "splitnetloc (''//'' @ netloc) = (netloc, [])"
  using assms by (simp add: splitnetloc_def takeWhile_eq_all_conv)

lemma urlsplit_origin:
  assumes s: "scheme = ''http'' \<or> scheme = ''https''"
    and n: "\<forall>c \<in> set netloc. c \<notin> set ''/?#'' \<and> \<not> unsafe_url_byte c"
    and ok: "netloc_ok netloc"
  shows "urlsplit (scheme @ ''://'' @ netloc) [] = Inr (scheme, netloc, [], [], [])"
proof -
  note sf = http_scheme_facts [OF s]
  let ?u = "scheme @ ''://'' @ netloc"
  have hd_u: "hd ?u = hd scheme"
    using sf(1) by simp
  have d: "dropWhile c0_control_or_space ?u = ?u"
    using sf(1,7) by (cases scheme) simp_all
  have f: "filter (\<lambda>c. \<not> unsafe_url_byte c) ?u = ?u"
    using sf(6) n by (simp add: filter_id_conv unsafe_url_byte_def code_point_def)
  have t: "takeWhile (\<lambda>c. c \<noteq> CHR '':'') ?u = scheme"
    using sf(5) by (subst takeWhile_append2) auto
  have c: "CHR '':'' \<in> set ?u"
    by simp
  have r: "drop (Suc (length scheme)) ?u = ''//'' @ netloc"
    by simp
  have sn: "splitnetloc (''//'' @ netloc) = (netloc, [])"
    by (rule splitnetloc_plain) (use n in auto)
  show ?thesis
    unfolding urlsplit_def Let_def
    apply (simp only: d f t c r sn hd_u sf)
    apply (simp add: ok sn [simplified] partition_char_def)
    done
qed

lemma urlparse_origin:
  assumes "scheme = ''http'' \<or> scheme = ''https''"
    and "\<forall>c \<in> set netloc. c \<notin> set ''/?#'' \<and> \<not> unsafe_url_byte c"
    and "netloc_ok netloc"
  shows "urlparse (scheme @ ''://'' @ netloc) [] = Inr (scheme, netloc, [], [], [], [])"
  by (simp add: urlparse_def urlsplit_origin [OF assms, simplified])


lemma dropWhile_sep:
  "c \<in> set s \<Longrightarrow> dropWhile (\<lambda>x. x \<noteq> c) s = c # drop 1 (dropWhile (\<lambda>x. x \<noteq> c) s)"
proof -
  assume c: "c \<in> set s"
  then have ne: "dropWhile (\<lambda>x. x \<noteq> c) s \<noteq> []"
    by (simp add: dropWhile_eq_Nil_conv)
  then have "hd (dropWhile (\<lambda>x. x \<noteq> c) s) = c"
    using hd_dropWhile [of "\<lambda>x. x \<noteq> c" s] by simp
  with ne show ?thesis
    by (cases "dropWhile (\<lambda>x. x \<noteq> c) s") simp_all
qed

lemma dropWhile_notin: "c \<notin> set s \<Longrightarrow> dropWhile (\<lambda>x. x \<noteq> c) s = []"
  by (auto simp: dropWhile_eq_Nil_conv)

lemma takeWhile_notin: "c \<notin> set s \<Longrightarrow> takeWhile (\<lambda>x. x \<noteq> c) s = s"
  by (auto simp: takeWhile_eq_all_conv)

lemma partition_rejoin:
  "takeWhile (\<lambda>x. x \<noteq> c) s
     @ (if c \<in> set s then c # drop 1 (dropWhile (\<lambda>x. x \<noteq> c) s) else []) = s"
proof (cases "c \<in> set s")
  case True
  from dropWhile_sep [OF True] takeWhile_dropWhile_id [of "\<lambda>x. x \<noteq> c" s] True
  show ?thesis by simp
next
  case False
  then have "takeWhile (\<lambda>x. x \<noteq> c) s = s"
    by (auto simp: takeWhile_eq_all_conv)
  with False show ?thesis by simp
qed

lemma partition_rejoin_nonempty:
  assumes "c \<in> set s \<longrightarrow> drop 1 (dropWhile (\<lambda>x. x \<noteq> c) s) \<noteq> []"
  shows "takeWhile (\<lambda>x. x \<noteq> c) s
     @ (if drop 1 (dropWhile (\<lambda>x. x \<noteq> c) s) \<noteq> [] then [c] @ drop 1 (dropWhile (\<lambda>x. x \<noteq> c) s)
        else []) = s"
proof (cases "c \<in> set s")
  case True
  define a where "a = drop 1 (dropWhile (\<lambda>x. x \<noteq> c) s)"
  from True assms have "a \<noteq> []"
    by (simp add: a_def)
  moreover from partition_rejoin [of c s] True have "takeWhile (\<lambda>x. x \<noteq> c) s @ c # a = s"
    by (simp add: a_def)
  ultimately show ?thesis
    unfolding a_def [symmetric] by simp
next
  case False
  then show ?thesis
    by (simp add: dropWhile_notin takeWhile_notin)
qed

lemma last_segment_suffix:
  "take (length p - length (takeWhile P (rev p))) p @ rev (takeWhile P (rev p)) = p"
proof -
  have "rev (takeWhile P (rev p)) = rev (take (length (takeWhile P (rev p))) (rev p))"
    by (simp add: takeWhile_eq_take [symmetric])
  also have "\<dots> = drop (length p - length (takeWhile P (rev p))) p"
    by (simp add: rev_take)
  finally show ?thesis
    by simp
qed

lemma splitparams_rejoin:
  assumes "CHR ''/'' \<in> set p" and "snd (splitparams p) = [] \<longrightarrow> fst (splitparams p) = p"
  shows "(if snd (splitparams p) \<noteq> [] then fst (splitparams p) @ '';'' @ snd (splitparams p)
          else fst (splitparams p)) = p"
proof (cases "snd (splitparams p) = []")
  case True
  with assms show ?thesis by simp
next
  case False
  let ?tail = "rev (takeWhile (\<lambda>c. c \<noteq> CHR ''/'') (rev p))"
  let ?front = "take (length p - length ?tail) p"
  from False assms(1) have semi: "CHR '';'' \<in> set ?tail"
    by (auto simp: splitparams_def Let_def split: if_splits)
  with assms(1) have f: "fst (splitparams p) = ?front @ takeWhile (\<lambda>c. c \<noteq> CHR '';'') ?tail"
    and s: "snd (splitparams p) = drop 1 (dropWhile (\<lambda>c. c \<noteq> CHR '';'') ?tail)"
    by (simp_all add: splitparams_def Let_def)
  have "?front @ ?tail = p"
    using last_segment_suffix [of p "\<lambda>c. c \<noteq> CHR ''/''"] by simp
  moreover have "takeWhile (\<lambda>c. c \<noteq> CHR '';'') ?tail @ CHR '';'' # drop 1 (dropWhile (\<lambda>c. c \<noteq> CHR '';'') ?tail) = ?tail"
    using partition_rejoin [of "CHR '';''" ?tail] semi by simp
  ultimately have "(?front @ takeWhile (\<lambda>c. c \<noteq> CHR '';'') ?tail) @ '';'' @ drop 1 (dropWhile (\<lambda>c. c \<noteq> CHR '';'') ?tail) = p"
    by (metis append.assoc append_Cons append_Nil)
  with False f s show ?thesis
    by simp
qed

lemma splitparams_none:
  assumes "CHR ''/'' \<in> set p" and "CHR '';'' \<notin> set p"
  shows "splitparams p = (p, [])"
proof -
  have "set (rev (takeWhile (\<lambda>c. c \<noteq> CHR ''/'') (rev p))) \<subseteq> set p"
    using set_takeWhileD by fastforce
  with assms show ?thesis
    by (auto simp: splitparams_def Let_def)
qed

lemma splitparams_path_rooted:
  assumes "take 1 p = ''/''"
  shows "take 1 (fst (splitparams p)) = ''/''"
proof -
  let ?tw = "takeWhile (\<lambda>c. c \<noteq> CHR ''/'') (rev p)"
  from assms obtain q where p: "p = CHR ''/'' # q"
    by (cases p) auto
  then have in_p: "CHR ''/'' \<in> set p" by simp
  have "?tw \<noteq> rev p"
    using in_p by (simp add: takeWhile_eq_all_conv)
  moreover have "length ?tw \<le> length (rev p)"
    by (rule length_takeWhile_le)
  ultimately have "length ?tw < length p"
    by (metis length_rev nat_less_le takeWhile_eq_take take_all_iff)
  then obtain k where k: "length p - length (rev ?tw) = Suc k"
    by (cases "length p - length (rev ?tw)") simp_all
  have front: "take (length p - length (rev ?tw)) p = CHR ''/'' # take k q"
    unfolding k by (simp add: p)
  have "take 1 (take (length p - length (rev ?tw)) p @ x) = ''/''" for x
    unfolding front by simp
  with assms in_p show ?thesis
    by (simp add: splitparams_def Let_def)
qed

lemma before_query_rooted:
  "take 1 ref = ''/'' \<Longrightarrow> take 1 (before_query ref) = ''/''"
  by (cases ref) (auto simp: before_query_def before_fragment_def)

lemma reference_rejoin:
  assumes "rooted_reference ref"
  shows "(if reference_params ref \<noteq> [] then reference_path ref @ '';'' @ reference_params ref
          else reference_path ref)
         @ (if reference_query ref \<noteq> [] then ''?'' @ reference_query ref else [])
         @ (if reference_fragment ref \<noteq> [] then ''#'' @ reference_fragment ref else []) = ref"
proof -
  from assms have r: "take 1 ref = ''/''"
    and fr: "CHR ''#'' \<in> set ref \<longrightarrow> reference_fragment ref \<noteq> []"
    and qu: "CHR ''?'' \<in> set (before_fragment ref) \<longrightarrow> reference_query ref \<noteq> []"
    and pa: "reference_params ref = [] \<longrightarrow> reference_path ref = before_query ref"
    by (simp_all add: rooted_reference_def)
  define P where "P = (if reference_params ref \<noteq> [] then reference_path ref @ '';'' @ reference_params ref
          else reference_path ref)"
  define Q where "Q = (if reference_query ref \<noteq> [] then ''?'' @ reference_query ref else [])"
  define F where "F = (if reference_fragment ref \<noteq> [] then ''#'' @ reference_fragment ref else [])"
  from before_query_rooted [OF r] have "CHR ''/'' \<in> set (before_query ref)"
    by (cases "before_query ref") auto
  then have 1: "P = before_query ref"
    unfolding P_def reference_params_def reference_path_def
    by (rule splitparams_rejoin) (rule pa [unfolded reference_params_def reference_path_def])
  have 2: "before_query ref @ Q = before_fragment ref"
    unfolding Q_def before_query_def reference_query_def
    by (rule partition_rejoin_nonempty) (rule qu [unfolded reference_query_def])
  have 3: "before_fragment ref @ F = ref"
    unfolding F_def before_fragment_def reference_fragment_def
    by (rule partition_rejoin_nonempty) (rule fr [unfolded reference_fragment_def])
  have "P @ Q @ F = (P @ Q) @ F"
    by simp
  also have "\<dots> = ref"
    by (simp only: 1 2 3)
  finally have "P @ Q @ F = ref" .
  then show ?thesis
    unfolding P_def Q_def F_def .
qed

lemma urlsplit_reference:
  assumes s: "scheme = ''http'' \<or> scheme = ''https''"
    and r: "take 1 ref = ''/''" and t: "take 2 ref \<noteq> ''//''"
    and c: "list_all (\<lambda>c. \<not> unsafe_url_byte c) ref"
  shows "urlsplit ref scheme
           = Inr (scheme, [], before_query ref, reference_query ref, reference_fragment ref)"
proof -
  note sf = http_scheme_facts [OF s]
  from r obtain q where ref: "ref = CHR ''/'' # q"
    by (cases ref) auto
  have d: "dropWhile c0_control_or_space ref = ref"
    by (simp add: ref char_tests)
  have f: "filter (\<lambda>c. \<not> unsafe_url_byte c) ref = ref"
    using c by (simp add: filter_id_conv list_all_iff)
  have a: "\<not> is_alpha (hd ref)"
    by (simp add: ref char_tests)
  have fr: "(if CHR ''#'' \<in> set ref then snd (snd (partition_char CHR ''#'' ref)) else [])
      = reference_fragment ref"
    by (simp add: partition_char_def reference_fragment_def dropWhile_notin)
  have bf: "(if CHR ''#'' \<in> set ref then fst (partition_char CHR ''#'' ref) else ref)
      = before_fragment ref"
    by (simp add: partition_char_def before_fragment_def takeWhile_notin)
  have qu: "(if CHR ''?'' \<in> set (before_fragment ref)
             then snd (snd (partition_char CHR ''?'' (before_fragment ref))) else [])
      = reference_query ref"
    by (simp add: partition_char_def reference_query_def dropWhile_notin)
  have bq: "(if CHR ''?'' \<in> set (before_fragment ref)
             then fst (partition_char CHR ''?'' (before_fragment ref)) else before_fragment ref)
      = before_query ref"
    by (simp add: partition_char_def before_query_def takeWhile_notin)
  show ?thesis
    unfolding urlsplit_def Let_def
    apply (simp only: d f a sf)
    apply (simp only: simp_thms if_False t fr bf qu bq)
    done
qed

lemma urlparse_reference:
  assumes s: "scheme = ''http'' \<or> scheme = ''https''"
    and r: "take 1 ref = ''/''" and t: "take 2 ref \<noteq> ''//''"
    and c: "list_all (\<lambda>c. \<not> unsafe_url_byte c) ref"
  shows "urlparse ref scheme
           = Inr (scheme, [], reference_path ref, reference_params ref, reference_query ref,
                  reference_fragment ref)"
proof -
  from before_query_rooted [OF r] have "CHR ''/'' \<in> set (before_query ref)"
    by (cases "before_query ref") auto
  then have "CHR '';'' \<notin> set (before_query ref) \<Longrightarrow> splitparams (before_query ref) = (before_query ref, [])"
    by (rule splitparams_none)
  with urlsplit_reference [OF s r t c] http_scheme_facts(10) [OF s] show ?thesis
    by (auto simp: urlparse_def reference_path_def reference_params_def)
qed

lemma urlunparse_rooted:
  assumes s: "scheme = ''http'' \<or> scheme = ''https''" and p: "take 1 path = ''/''"
  shows "urlunparse (scheme, netloc, path, params, query, fragment)
           = scheme @ ''://'' @ netloc
             @ (if params \<noteq> [] then path @ '';'' @ params else path)
             @ (if query \<noteq> [] then ''?'' @ query else [])
             @ (if fragment \<noteq> [] then ''#'' @ fragment else [])"
proof -
  note sf = http_scheme_facts [OF s]
  from p obtain q where "path = CHR ''/'' # q"
    by (cases path) auto
  with sf(1,9) show ?thesis
    by (simp add: urlunparse_def urlunsplit_def)
qed

lemma urljoin_reference:
  assumes s: "scheme = ''http'' \<or> scheme = ''https''"
    and n: "\<forall>c \<in> set netloc. c \<notin> set ''/?#'' \<and> \<not> unsafe_url_byte c"
    and ok: "netloc_ok netloc"
    and rr: "rooted_reference ref"
  shows "urljoin (scheme @ ''://'' @ netloc) ref = Inr (scheme @ ''://'' @ netloc @ ref)"
proof -
  note sf = http_scheme_facts [OF s]
  from rr have r: "take 1 ref = ''/''" and t: "take 2 ref \<noteq> ''//''"
    and c: "list_all (\<lambda>c. \<not> unsafe_url_byte c) ref"
    and dots: "''.'' \<notin> set (split CHR ''/'' (reference_path ref))"
      "''..'' \<notin> set (split CHR ''/'' (reference_path ref))"
    by (simp_all add: rooted_reference_def)
  define path where "path = reference_path ref"
  define params where "params = reference_params ref"
  define query where "query = reference_query ref"
  define fragment where "fragment = reference_fragment ref"
  have b: "urlparse (scheme @ ''://'' @ netloc) [] = Inr (scheme, netloc, [], [], [], [])"
    by (rule urlparse_origin [OF s n ok])
  have u: "urlparse ref scheme = Inr (scheme, [], path, params, query, fragment)"
    unfolding path_def params_def query_def fragment_def by (rule urlparse_reference [OF s r t c])
  have p1: "take 1 path = ''/''"
    unfolding path_def reference_path_def
    by (rule splitparams_path_rooted) (rule before_query_rooted [OF r])
  then have pne: "path \<noteq> []"
    by auto
  from p1 have p2: "take (Suc 0) path = ''/''"
    by simp
  have res: "resolve_segments [] (split CHR ''/'' path) = split CHR ''/'' path"
    using dots by (simp add: resolve_segments_plain path_def)
  have last: "last (split CHR ''/'' path) \<noteq> ''.''" "last (split CHR ''/'' path) \<noteq> ''..''"
    using dots split_not_Nil [of "CHR ''/''" path] last_in_set unfolding path_def by metis+
  have j: "join ''/'' (split CHR ''/'' path) = path"
    by (rule join_split)
  have un: "urlunparse (scheme, netloc, path, params, query, fragment) = scheme @ ''://'' @ netloc @ ref"
    unfolding urlunparse_rooted [OF s p1]
    using reference_rejoin [OF rr] by (simp only: path_def params_def query_def fragment_def)
  from r have rne: "ref \<noteq> []"
    by auto
  have bne: "scheme @ ''://'' @ netloc \<noteq> []"
    by simp
  have "urljoin (scheme @ ''://'' @ netloc) ref
          = Inr (urlunparse (scheme, netloc, path, params, query, fragment))"
    unfolding urljoin_def Let_def
    by (simp only: b u rne bne if_False sum.case prod.case)
       (simp add: sf p2 pne res last j)
  with un show ?thesis
    by simp
qed

lemma if_Inl_Inr:
  "r = (if C then Inl e else Inr (S, N, P, Q, F)) \<Longrightarrow> r = Inr (s, n, p, q, f) \<Longrightarrow> \<not> C \<and> n = N"
  by (auto split: if_splits)

lemma urlsplit_netloc:
  assumes "urlsplit u sch = Inr (s, n, p, q, f)"
  shows "(\<forall>c \<in> set n. c \<notin> set ''/?#'' \<and> \<not> unsafe_url_byte c) \<and> netloc_ok n"
proof -
  let ?url1 = "filter (\<lambda>c. \<not> unsafe_url_byte c) (dropWhile c0_control_or_space u)"
  let ?pre = "takeWhile (\<lambda>c. c \<noteq> CHR '':'') ?url1"
  let ?hs = "CHR '':'' \<in> set ?url1 \<and> ?pre \<noteq> [] \<and> is_alpha (hd ?url1) \<and> list_all scheme_char ?pre"
  let ?url2 = "if ?hs then drop (Suc (length ?pre)) ?url1 else ?url1"
  let ?hn = "take 2 ?url2 = ''//''"
  let ?n = "if ?hn then fst (splitnetloc ?url2) else []"
  have "\<exists>S P Q F. urlsplit u sch
          = (if ?hn \<and> \<not> netloc_ok ?n then Inl ValueError else Inr (S, ?n, P, Q, F))"
    unfolding urlsplit_def Let_def by (intro exI) (rule refl)
  then obtain S P Q F where
    eq: "urlsplit u sch = (if ?hn \<and> \<not> netloc_ok ?n then Inl ValueError else Inr (S, ?n, P, Q, F))"
    by (elim exE)
  define url2 where "url2 = ?url2"
  note cn = if_Inl_Inr [OF eq assms, folded url2_def]
  have safe: "\<forall>c \<in> set url2. \<not> unsafe_url_byte c"
    unfolding url2_def by (auto dest: in_set_dropD)
  have "\<forall>c \<in> set (fst (splitnetloc url2)). c \<notin> set ''/?#'' \<and> c \<in> set url2"
    unfolding splitnetloc_def
    by (auto dest!: set_takeWhileD dest: in_set_dropD)
  with safe have 1: "\<forall>c \<in> set (fst (splitnetloc url2)). c \<notin> set ''/?#'' \<and> \<not> unsafe_url_byte c"
    by blast
  have ok0: "netloc_ok []"
    by (simp add: netloc_ok_def)
  show ?thesis
  proof (cases "take 2 url2 = ''//''")
    case True
    with cn 1 show ?thesis by simp
  next
    case False
    with cn ok0 show ?thesis by simp
  qed
qed

lemma urlparse_netloc:
  assumes "urlparse u sch = Inr (s, n, p, pa, q, f)"
  shows "(\<forall>c \<in> set n. c \<notin> set ''/?#'' \<and> \<not> unsafe_url_byte c) \<and> netloc_ok n"
proof -
  from assms obtain p' where "urlsplit u sch = Inr (s, n, p', q, f)"
    by (auto simp: urlparse_def split: sum.splits if_splits)
  then show ?thesis
    by (rule urlsplit_netloc)
qed

text \<open>
  C6, as the specification states it: a reference that starts with a slash resolves to the
  origin followed by the reference. A reference that starts with two slashes names another
  host, and dot segments are removed; an empty query, fragment or parameter part is
  dropped with its separator, and a tab is removed.
\<close>

theorem rooted_reference_not_appended:
  "init ''http://example.com/page'' = Inr example_worker
   \<and> make_absolute example_worker (Some ''//cdn.example.org/a.png'') = Inr ''http://cdn.example.org/a.png''
   \<and> make_absolute example_worker (Some ''//cdn.example.org/a.png'')
       \<noteq> Inr (base_url example_worker @ ''//cdn.example.org/a.png'')
   \<and> make_absolute example_worker (Some ''/a/../b'') = Inr ''http://example.com/b''
   \<and> make_absolute example_worker (Some ''/a/../b'') \<noteq> Inr (base_url example_worker @ ''/a/../b'')
   \<and> make_absolute example_worker (Some ''/a?'') = Inr ''http://example.com/a''
   \<and> make_absolute example_worker (Some ''/a#'') = Inr ''http://example.com/a''
   \<and> make_absolute example_worker (Some ''/a;'') = Inr ''http://example.com/a''
   \<and> make_absolute example_worker (Some [CHR ''/'', CHR ''a'', CHR 0x09, CHR ''b''])
       = Inr ''http://example.com/ab''"
  by code_simp

text \<open>
  C6, amended. The resolver returns the empty string for a missing or empty reference and
  returns a reference that starts with \<open>http\<close> unchanged. For a worker made from an
  \<open>http\<close> or \<open>https\<close> URL, a reference that starts with exactly one slash resolves to the
  origin followed by the reference, query, fragment and parameters included, when it has
  no tab, carriage return or line feed, no \<open>.\<close> or \<open>..\<close> segment in its path, and no
  empty query, fragment or parameter part.
\<close>

theorem make_absolute_law:
  "make_absolute self None = Inr []
   \<and> make_absolute self (Some []) = Inr []
   \<and> (startswith ref ''http'' \<longrightarrow> make_absolute self (Some ref) = Inr ref)
   \<and> (init u = Inr self
        \<and> urlparse u [] = Inr (scheme, netloc, path0, params0, query0, fragment0)
        \<and> (scheme = ''http'' \<or> scheme = ''https'')
        \<and> rooted_reference rooted
       \<longrightarrow> make_absolute self (Some rooted) = Inr (base_url self @ rooted))"
proof (intro conjI impI)
  show "make_absolute self None = Inr []" and "make_absolute self (Some []) = Inr []"
    by (simp_all add: make_absolute_def)
next
  assume "startswith ref ''http''"
  then show "make_absolute self (Some ref) = Inr ref"
    by (auto simp: make_absolute_def)
next
  assume a: "init u = Inr self
        \<and> urlparse u [] = Inr (scheme, netloc, path0, params0, query0, fragment0)
        \<and> (scheme = ''http'' \<or> scheme = ''https'')
        \<and> rooted_reference rooted"
  then have b: "base_url self = scheme @ ''://'' @ netloc"
    by (auto simp: init_def)
  from a have n: "\<forall>c \<in> set netloc. c \<notin> set ''/?#'' \<and> \<not> unsafe_url_byte c"
    and ok: "netloc_ok netloc"
    using urlparse_netloc by blast+
  from a have s: "scheme = ''http'' \<or> scheme = ''https''" and rr: "rooted_reference rooted"
    by simp_all
  from rr obtain q where r: "rooted = CHR ''/'' # q"
    by (cases rooted) (auto simp: rooted_reference_def)
  have "urljoin (scheme @ ''://'' @ netloc) rooted = Inr (scheme @ ''://'' @ netloc @ rooted)"
    by (rule urljoin_reference [OF s n ok rr])
  then show "make_absolute self (Some rooted) = Inr (base_url self @ rooted)"
    by (simp add: make_absolute_def b startswith_def r)
qed

theorem make_absolute_law_witness:
  "startswith ''https://other.org/x'' ''http''
   \<and> make_absolute example_worker (Some ''https://other.org/x'') = Inr ''https://other.org/x''
   \<and> init ''http://example.com/page'' = Inr example_worker
   \<and> urlparse ''http://example.com/page'' [] = Inr (''http'', ''example.com'', ''/page'', [], [], [])
   \<and> rooted_reference ''/articles/one;v=2?page=3&x=1#top''
   \<and> make_absolute example_worker (Some ''/articles/one;v=2?page=3&x=1#top'')
       = Inr ''http://example.com/articles/one;v=2?page=3&x=1#top''"
proof -
  have h: "startswith ''https://other.org/x'' ''http''"
    by code_simp
  have i: "init ''http://example.com/page'' = Inr example_worker"
    by code_simp
  have u: "urlparse ''http://example.com/page'' [] = Inr (''http'', ''example.com'', ''/page'', [], [], [])"
    by code_simp
  have p: "rooted_reference ''/articles/one;v=2?page=3&x=1#top''"
    by code_simp
  have b: "base_url example_worker = ''http://example.com''"
    by code_simp
  from make_absolute_law [of example_worker "''https://other.org/x''" "''http://example.com/page''"
      "''http''" "''example.com''" "''/page''" "[]" "[]" "[]" "''/articles/one;v=2?page=3&x=1#top''"] h i u p b
  show ?thesis by simp
qed

section \<open>Marker numbering and the walk\<close>

lemma text_image_markers_none:
  "list_all (\<lambda>b. \<not> is_text_image_table b) bs \<Longrightarrow> text_image_markers bs = []"
  by (induction bs rule: text_image_markers.induct) auto

lemma text_image_markers_append:
  "(case ys of [] \<Rightarrow> True | b # bs \<Rightarrow> \<not> is_text_image_table b) \<Longrightarrow>
   text_image_markers (xs @ ys) = text_image_markers xs @ text_image_markers ys"
  by (induction xs rule: text_image_markers.induct) (auto split: list.splits)

lemma upt_Suc_append: "a \<le> b \<Longrightarrow> b \<le> c \<Longrightarrow> [Suc a ..< Suc b] @ [Suc b ..< Suc c] = [Suc a ..< Suc c]"
  by (metis Suc_le_mono upt_add_eq_append le_iff_add)

lemma chunk_ok_append:
  assumes "chunk_ok ti tb ti1 tb1 out1" and "chunk_ok ti1 tb1 ti2 tb2 out2"
  shows "chunk_ok ti tb ti2 tb2 (out1 @ out2)"
proof -
  from assms have le: "ti \<le> ti1" "ti1 \<le> ti2" "tb \<le> tb1" "tb1 \<le> tb2"
    by (auto simp: chunk_ok_def)
  have "text_image_markers (out1 @ out2) = text_image_markers out1 @ text_image_markers out2"
    using assms(2) by (intro text_image_markers_append) (simp add: chunk_ok_def)
  also have "\<dots> = map text_image_marker ([Suc ti ..< Suc ti1] @ [Suc ti1 ..< Suc ti2])"
    using assms by (simp add: chunk_ok_def)
  finally have 1: "text_image_markers (out1 @ out2) = map text_image_marker [Suc ti ..< Suc ti2]"
    using le by (simp only: upt_Suc_append)
  have "text_block_markers (out1 @ out2) = map text_block_marker ([Suc tb ..< Suc tb1] @ [Suc tb1 ..< Suc tb2])"
    using assms by (simp add: chunk_ok_def text_block_markers_def)
  then have 2: "text_block_markers (out1 @ out2) = map text_block_marker [Suc tb ..< Suc tb2]"
    using le by (simp only: upt_Suc_append)
  have 3: "case out1 @ out2 of [] \<Rightarrow> True | b # bs \<Rightarrow> \<not> is_text_image_table b"
    using assms by (cases out1) (auto simp: chunk_ok_def)
  have 4: "ti = ti2 \<longrightarrow> list_all (\<lambda>b. \<not> is_text_image_table b) (out1 @ out2)"
    using assms le by (auto simp: chunk_ok_def)
  from le 1 2 3 4 show ?thesis
    by (simp add: chunk_ok_def)
qed

lemma chunk_ok_quiet:
  assumes "list_all (\<lambda>b. \<not> is_text_image_table b \<and> \<not> is_text_block_marker b) out"
  shows "chunk_ok ti tb ti tb out"
proof -
  from assms have a: "list_all (\<lambda>b. \<not> is_text_image_table b) out"
    and b: "filter is_text_block_marker out = []"
    by (auto simp: list_all_iff filter_empty_conv)
  from a have "case out of [] \<Rightarrow> True | b # bs \<Rightarrow> \<not> is_text_image_table b"
    by (cases out) auto
  with a b show ?thesis
    by (simp add: chunk_ok_def text_image_markers_none text_block_markers_def)
qed

lemma step_ok_refl: "step_ok self doc self doc"
  unfolding step_ok_def
  by (rule conjI refl)+ (rule exI [of _ "[]"], simp add: chunk_ok_quiet)

lemma step_ok_trans:
  assumes "step_ok self doc self1 doc1" and "step_ok self1 doc1 self2 doc2"
  shows "step_ok self doc self2 doc2"
proof -
  from assms obtain out1 out2 where
    o: "doc1 = doc @ out1" "doc2 = doc1 @ out2"
    and c1: "chunk_ok (text_image_count self) (text_block_count self)
               (text_image_count self1) (text_block_count self1) out1"
    and c2: "chunk_ok (text_image_count self1) (text_block_count self1)
               (text_image_count self2) (text_block_count self2) out2"
    by (auto simp: step_ok_def)
  from o have "doc2 = doc @ (out1 @ out2)"
    by simp
  with chunk_ok_append [OF c1 c2] assms show ?thesis
    unfolding step_ok_def by metis
qed

lemma step_ok_quiet:
  "list_all (\<lambda>b. \<not> is_text_image_table b \<and> \<not> is_text_block_marker b) out \<Longrightarrow>
   step_ok self doc self (doc @ out)"
  unfolding step_ok_def using chunk_ok_quiet by blast

lemma quiet_paragraphs [simp]:
  "quiet empty_paragraph" "quiet (text_paragraph t)" "quiet (heading t l)"
  "quiet (component_marker label)" "quiet (source_paragraph u)" "quiet seo_header"
  by (simp_all add: quiet_def empty_paragraph_def text_paragraph_def heading_def
      component_marker_def source_paragraph_def seo_header_def new_paragraph_def plain_run_def)

lemma quiet_plain_paragraph:
  "\<forall>r \<in> set (runs p). font_size r = None \<Longrightarrow> quiet (Paragraph p)"
  by (cases "runs p") (auto simp: quiet_def)

lemma quiet_table_Cons:
  "r \<noteq> bold_run ''Image Position: Left\<newline>'' \<Longrightarrow>
   quiet (Table st ((runs_cell (r # rs) # cs) # rows))"
  by (simp add: quiet_def runs_cell_def new_paragraph_def)

lemma bold_run_eq [simp]: "bold_run s = bold_run t \<longleftrightarrow> s = t"
  by (simp add: bold_run_def plain_run_def)

lemma italic_not_bold [simp]: "italic_run s \<noteq> bold_run t"
  by (simp add: bold_run_def italic_run_def plain_run_def)

lemma plain_not_bold [simp]: "plain_run s \<noteq> bold_run t"
  by (simp add: bold_run_def plain_run_def)

lemma step_ok_quiet':
  "list_all quiet out \<Longrightarrow> step_ok self doc self (doc @ out)"
  by (rule step_ok_quiet) (simp add: list_all_iff quiet_def)

lemma text_image_markers_Cons_none:
  "list_all (\<lambda>b. \<not> is_text_image_table b) bs \<Longrightarrow> text_image_markers (b # bs) = []"
  by (induction bs arbitrary: b) auto

lemma quiet_content_blocks: "list_all quiet (content_blocks seen tags)"
  by (induction seen tags rule: content_blocks.induct) (auto simp: Let_def)

lemma quiet_fallback_blocks: "list_all quiet (fallback_blocks seen containers)"
  by (induction seen containers rule: fallback_blocks.induct) (auto simp: Let_def)

lemma hero_article_step:
  "hero_article self doc element = Inr (self1, doc1) \<Longrightarrow> step_ok self doc self1 doc1"
  unfolding hero_article_def Let_def
  by (auto split: sum.splits option.splits if_splits
      intro!: step_ok_quiet' quiet_table_Cons quiet_plain_paragraph
      simp: new_paragraph_def bold_run_def italic_run_def plain_run_def)

lemma articles_list_step:
  "articles_list self doc element = Inr (self1, doc1) \<Longrightarrow> step_ok self doc self1 doc1"
  unfolding articles_list_def Let_def
  by (auto split: sum.splits option.splits if_splits
      intro!: step_ok_quiet' quiet_table_Cons)

lemma other_component_step:
  "other_component self doc element component_name = Inr (self1, doc1) \<Longrightarrow> step_ok self doc self1 doc1"
  unfolding other_component_def Let_def
  by (auto split: sum.splits option.splits if_splits
      intro!: step_ok_quiet' quiet_table_Cons)

lemma text_image_table_is [simp]: "is_text_image_table (text_image_table info)"
  by (simp add: text_image_table_def runs_cell_def new_paragraph_def)

lemma text_image_table_not_marker [simp]: "\<not> is_text_block_marker (text_image_table info)"
  by (simp add: text_image_table_def)

lemma text_image_step:
  assumes "text_image self anc doc element ''Text Image'' = Inr (self1, doc1)"
  shows "step_ok self doc self1 doc1"
    and "text_image_count self1 = Suc (text_image_count self)"
    and "text_block_count self1 = text_block_count self"
    and "\<exists>rest. doc1 = doc @ text_image_marker (Suc (text_image_count self)) # rest"
proof -
  let ?content = "if find_all_anc anc ([''p''] @ heading_tags @ [''li'']) element \<noteq> []
      then content_blocks {} (find_all_anc anc ([''p''] @ heading_tags @ [''li'']) element)
      else fallback_blocks {} (find_all_class_re text_patterns element)"
  from assms obtain info where
    s: "self1 = self\<lparr>text_image_count := Suc (text_image_count self)\<rparr>"
    and d: "doc1 = doc @ [text_image_marker (Suc (text_image_count self)), text_image_table info,
              empty_paragraph] @ ?content @ [empty_paragraph]"
    unfolding text_image_def Let_def text_image_marker_def
    by (auto split: sum.splits)
  have q: "list_all quiet (empty_paragraph # ?content @ [empty_paragraph])"
    by (simp add: quiet_content_blocks quiet_fallback_blocks)
  then have q1: "list_all (\<lambda>b. \<not> is_text_image_table b) (empty_paragraph # ?content @ [empty_paragraph])"
    and q2: "filter is_text_block_marker (empty_paragraph # ?content @ [empty_paragraph]) = []"
    unfolding list_all_iff filter_empty_conv quiet_def by blast+
  let ?out = "text_image_marker (Suc (text_image_count self)) # text_image_table info
       # (empty_paragraph # ?content @ [empty_paragraph])"
  have m: "text_image_markers ?out = [text_image_marker (Suc (text_image_count self))]"
    using text_image_markers_Cons_none [OF q1] by simp
  have n: "\<not> is_text_block_marker (text_image_marker k)" "\<not> is_text_image_table (text_image_marker k)" for k
    using quiet_paragraphs(4) [of "''Text Image '' @ str_nat k"]
    by (simp_all add: quiet_def text_image_marker_def)
  have b: "text_block_markers ?out = []"
    using q2 n by (simp add: text_block_markers_def)
  have "chunk_ok (text_image_count self) (text_block_count self)
          (Suc (text_image_count self)) (text_block_count self) ?out"
    unfolding chunk_ok_def using m b n by simp
  then show "step_ok self doc self1 doc1"
    unfolding step_ok_def s d by (intro conjI exI [of _ ?out]) simp_all
  show "text_image_count self1 = Suc (text_image_count self)"
    and "text_block_count self1 = text_block_count self"
    by (simp_all add: s)
  show "\<exists>rest. doc1 = doc @ text_image_marker (Suc (text_image_count self)) # rest"
    unfolding d by simp
qed

lemma process_special_component_step:
  "process_special_component self anc doc element component_name = Inr (self1, doc1) \<Longrightarrow>
   step_ok self doc self1 doc1"
  unfolding process_special_component_def
  by (auto split: if_splits
      intro: hero_article_step articles_list_step other_component_step text_image_step(1))

lemma child_runs_size:
  "child_runs self child = Inr rs \<Longrightarrow> \<forall>r \<in> set rs. font_size r = None"
  by (cases child)
    (auto simp: Let_def plain_run_def bold_run_def italic_run_def link_run_def
      split: if_splits sum.splits)

lemma add_child_runs_size:
  "add_child_runs self p ks = Inr p1 \<Longrightarrow> \<forall>r \<in> set (runs p). font_size r = None \<Longrightarrow>
   \<forall>r \<in> set (runs p1). font_size r = None"
proof (induction ks arbitrary: p)
  case Nil
  then show ?case by simp
next
  case (Cons k ks)
  from Cons.prems(1) obtain rs where
    rs: "child_runs self k = Inr rs"
    and rest: "add_child_runs self (p\<lparr>runs := runs p @ rs\<rparr>) ks = Inr p1"
    by (auto split: sum.splits)
  from child_runs_size [OF rs] Cons.prems(2)
  have "\<forall>r \<in> set (runs (p\<lparr>runs := runs p @ rs\<rparr>)). font_size r = None"
    by auto
  from Cons.IH [OF rest this] show ?case .
qed

lemma process_children_with_links_quiet:
  "process_children_with_links self (new_paragraph st []) element = Inr p \<Longrightarrow> quiet (Paragraph p)"
  unfolding process_children_with_links_def
  by (rule quiet_plain_paragraph, erule add_child_runs_size) (simp add: new_paragraph_def)

lemma list_items_quiet:
  "list_items self st lis = Inr ps \<Longrightarrow> list_all quiet ps"
proof (induction lis arbitrary: ps)
  case Nil
  then show ?case by simp
next
  case (Cons li lis)
  then show ?case
    by (auto split: sum.splits dest: process_children_with_links_quiet)
qed

lemma process_table_step:
  "\<exists>out. process_table doc table_element = doc @ out \<and> list_all quiet out"
proof (cases "table_rows table_element")
  case Nil
  then have "process_table doc table_element = doc @ []"
    by (simp add: process_table_def table_rows_def)
  then show ?thesis by (intro exI [of _ "[]"]) simp
next
  case (Cons row rows)
  then have ne: "table_rows table_element \<noteq> []" by simp
  let ?cell = "\<lambda>row j. if j < length (row_cells row)
                              then text_cell (get_text_strip (row_cells row ! j))
                              else empty_cell"
  have "quiet (Table ''Light Grid Accent 1''
          (map (\<lambda>row. map (?cell row) [0 ..< column_count table_element]) (table_rows table_element)))"
  proof (cases "column_count table_element")
    case 0
    then show ?thesis by (simp add: Cons quiet_def)
  next
    case (Suc n)
    then show ?thesis
      by (simp add: Cons quiet_def upt_conv_Cons text_cell_def empty_cell_def new_paragraph_def
          del: upt_Suc)
  qed
  with process_table_closed [OF ne, of doc] show ?thesis
    by simp
qed

lemma text_block_tagging_step:
  "step_ok self doc (fst (text_block_tagging self doc element)) (snd (text_block_tagging self doc element))"
proof (cases "target_classes \<subseteq> set (get_class element)")
  case False
  then show ?thesis by (simp add: text_block_tagging_def step_ok_refl)
next
  case True
  have "chunk_ok (text_image_count self) (text_block_count self) (text_image_count self)
          (Suc (text_block_count self)) [text_block_marker (Suc (text_block_count self))]"
    by (simp add: chunk_ok_def text_block_markers_def text_block_marker_def new_paragraph_def
        plain_run_def)
  with True show ?thesis
    by (simp add: text_block_tagging_def step_ok_def)
qed

lemma step_ok_append_quiet:
  "step_ok self doc self1 doc1 \<Longrightarrow> list_all quiet out \<Longrightarrow> step_ok self doc self1 (doc1 @ out)"
  by (erule step_ok_trans) (rule step_ok_quiet')

lemma process_element_Tag:
  "process_element self anc doc (Tag n cs as ks) =
     (if skipped (Tag n cs as ks) then Inr (self, doc)
      else
        (case special_component (Tag n cs as ks) of
           Some component_name \<Rightarrow>
             process_special_component (fst (text_block_tagging self doc (Tag n cs as ks))) anc
               (snd (text_block_tagging self doc (Tag n cs as ks))) (Tag n cs as ks) component_name
         | None \<Rightarrow>
             if n = ''h1'' then Inr (fst (text_block_tagging self doc (Tag n cs as ks)),
                                      snd (text_block_tagging self doc (Tag n cs as ks)))
             else if n \<in> set heading_tags then
               (case process_children_with_links (fst (text_block_tagging self doc (Tag n cs as ks)))
                       (new_paragraph (heading_style (heading_level n)) []) (Tag n cs as ks) of
                  Inl e \<Rightarrow> Inl e
                | Inr p \<Rightarrow> Inr (fst (text_block_tagging self doc (Tag n cs as ks)),
                               snd (text_block_tagging self doc (Tag n cs as ks)) @ [Paragraph p]))
             else if n = ''p'' then
               (case process_children_with_links (fst (text_block_tagging self doc (Tag n cs as ks)))
                       (new_paragraph None []) (Tag n cs as ks) of
                  Inl e \<Rightarrow> Inl e
                | Inr p \<Rightarrow> Inr (fst (text_block_tagging self doc (Tag n cs as ks)),
                               snd (text_block_tagging self doc (Tag n cs as ks)) @ [Paragraph p]))
             else if n \<in> set [''ul'', ''ol''] then
               (case list_items (fst (text_block_tagging self doc (Tag n cs as ks)))
                       (if n = ''ul'' then ''List Bullet'' else ''List Number'')
                       (find_all_children ''li'' (Tag n cs as ks)) of
                  Inl e \<Rightarrow> Inl e
                | Inr ps \<Rightarrow> Inr (fst (text_block_tagging self doc (Tag n cs as ks)),
                                snd (text_block_tagging self doc (Tag n cs as ks)) @ ps))
             else if n = ''table'' then
               Inr (fst (text_block_tagging self doc (Tag n cs as ks)),
                    process_table (snd (text_block_tagging self doc (Tag n cs as ks))) (Tag n cs as ks))
             else process_children (fst (text_block_tagging self doc (Tag n cs as ks)))
                    (Tag n cs as ks # anc) (snd (text_block_tagging self doc (Tag n cs as ks))) ks))"
  by (simp add: skipped_def Let_def)

declare process_element.simps(1) [simp del]

lemma walk_step:
  "(\<forall>self1 doc1. process_element self anc doc element = Inr (self1, doc1)
       \<longrightarrow> step_ok self doc self1 doc1
           \<and> (is_tag element \<and> \<not> skipped element \<longrightarrow>
                step_ok (fst (text_block_tagging self doc element))
                  (snd (text_block_tagging self doc element)) self1 doc1))"
  "(\<forall>self1 doc1. process_children self anc doc nodes = Inr (self1, doc1)
       \<longrightarrow> step_ok self doc self1 doc1)"
proof (induction self anc doc element and self anc doc nodes
    rule: process_element_process_children.induct)
  case (1 self anc doc n cs as ks)
  let ?e = "Tag n cs as ks"
  let ?s = "fst (text_block_tagging self doc ?e)"
  let ?d = "snd (text_block_tagging self doc ?e)"
  note t = text_block_tagging_step [of self doc ?e]
  show ?case
  proof (intro allI impI)
    fix self1 doc1
    assume r: "process_element self anc doc ?e = Inr (self1, doc1)"
    show "step_ok self doc self1 doc1
           \<and> (is_tag ?e \<and> \<not> skipped ?e \<longrightarrow> step_ok ?s ?d self1 doc1)"
    proof (cases "skipped ?e")
      case True
      with r show ?thesis
        by (simp add: process_element_Tag step_ok_refl)
    next
      case ns: False
      have main: "step_ok ?s ?d self1 doc1"
      proof (cases "special_component ?e")
        case (Some component_name)
        with r ns have "process_special_component ?s anc ?d ?e component_name = Inr (self1, doc1)"
          by (simp add: process_element_Tag)
        then show ?thesis by (rule process_special_component_step)
      next
        case None
        consider (h1) "n = ''h1''"
          | (heading) "n \<noteq> ''h1''" "n \<in> set heading_tags"
          | (p) "n \<noteq> ''h1''" "n \<notin> set heading_tags" "n = ''p''"
          | (list) "n \<noteq> ''h1''" "n \<notin> set heading_tags" "n \<noteq> ''p''" "n \<in> set [''ul'', ''ol'']"
          | (table) "n \<noteq> ''h1''" "n \<notin> set heading_tags" "n \<noteq> ''p''" "n \<notin> set [''ul'', ''ol'']"
              "n = ''table''"
          | (other) "n \<noteq> ''h1''" "n \<notin> set heading_tags" "n \<noteq> ''p''" "n \<notin> set [''ul'', ''ol'']"
              "n \<noteq> ''table''"
          by blast
        then show ?thesis
        proof cases
          case h1
          with r ns None have "self1 = ?s" "doc1 = ?d"
            by (simp_all add: process_element_Tag)
          then show ?thesis by (simp add: step_ok_refl)
        next
          case heading
          with r ns None obtain p where
            "process_children_with_links ?s (new_paragraph (heading_style (heading_level n)) []) ?e = Inr p"
            and "self1 = ?s" "doc1 = ?d @ [Paragraph p]"
            by (auto simp: process_element_Tag split: sum.splits)
          with step_ok_quiet' [of "[Paragraph p]" ?s ?d] show ?thesis
            by (simp add: process_children_with_links_quiet)
        next
          case p
          with r ns None obtain q where
            "process_children_with_links ?s (new_paragraph None []) ?e = Inr q"
            and "self1 = ?s" "doc1 = ?d @ [Paragraph q]"
            by (auto simp: process_element_Tag split: sum.splits)
          with step_ok_quiet' [of "[Paragraph q]" ?s ?d] show ?thesis
            by (simp add: process_children_with_links_quiet)
        next
          case list
          with r ns None obtain ps where
            "list_items ?s (if n = ''ul'' then ''List Bullet'' else ''List Number'')
               (find_all_children ''li'' ?e) = Inr ps"
            and "self1 = ?s" "doc1 = ?d @ ps"
            by (auto simp: process_element_Tag split: sum.splits)
          with step_ok_quiet' [of ps ?s ?d] show ?thesis
            by (simp add: list_items_quiet)
        next
          case table
          with r ns None have "self1 = ?s" "doc1 = process_table ?d ?e"
            by (simp_all add: process_element_Tag heading_tags_def)
          with step_ok_quiet' [of _ ?s ?d] process_table_step [of ?d ?e] show ?thesis
            by auto
        next
          case other
          with r ns None have c: "process_children ?s (?e # anc) ?d ks = Inr (self1, doc1)"
            by (simp add: process_element_Tag)
          from ns have "n \<notin> set skipped_tags" "\<not> set cs \<inter> exclusions \<noteq> {}"
            "get ?e ''id'' \<noteq> Some ''nppe-feedback-article-form''"
            by (simp_all add: skipped_def)
          with "1.IH" [OF refl _ _ _ refl refl None] other
          have "\<forall>self1 doc1. process_children ?s (?e # anc) ?d ks = Inr (self1, doc1)
                  \<longrightarrow> step_ok ?s ?d self1 doc1"
            by blast
          with c show ?thesis by blast
        qed
      qed
      from step_ok_trans [OF t main] main show ?thesis
        by simp
    qed
  qed
next
  case (2 self anc doc t)
  then show ?case by (simp add: step_ok_refl)
next
  case (3 self anc doc t)
  then show ?case by (simp add: step_ok_refl)
next
  case (4 self anc doc)
  then show ?case by (simp add: step_ok_refl)
next
  case (5 self anc doc n cs as ks rest)
  show ?case
  proof (intro allI impI)
    fix self1 doc1
    assume r: "process_children self anc doc (Tag n cs as ks # rest) = Inr (self1, doc1)"
    then obtain s d where
      e: "process_element self anc doc (Tag n cs as ks) = Inr (s, d)"
      and c: "process_children s anc d rest = Inr (self1, doc1)"
      by (auto split: sum.splits)
    from "5.IH"(1) e have 1: "step_ok self doc s d" by blast
    from "5.IH"(2) [OF e refl] c have 2: "step_ok s d self1 doc1" by blast
    from step_ok_trans [OF 1 2] show "step_ok self doc self1 doc1" .
  qed
next
  case (6 self anc doc t rest)
  show ?case
  proof (intro allI impI)
    fix self1 doc1
    assume r: "process_children self anc doc (NavigableString t # rest) = Inr (self1, doc1)"
    let ?d = "if 20 < length (strip t) then doc @ [text_paragraph (strip t)] else doc"
    have 1: "step_ok self doc self ?d"
      using step_ok_quiet' [of "[text_paragraph (strip t)]" self doc] by (simp add: step_ok_refl)
    from r "6.IH" have 2: "step_ok self ?d self1 doc1" by simp
    from step_ok_trans [OF 1 2] show "step_ok self doc self1 doc1" .
  qed
next
  case (7 self anc doc t rest)
  show ?case
  proof (intro allI impI)
    fix self1 doc1
    assume r: "process_children self anc doc (Comment t # rest) = Inr (self1, doc1)"
    let ?d = "if 20 < length (strip t) then doc @ [text_paragraph (strip t)] else doc"
    have 1: "step_ok self doc self ?d"
      using step_ok_quiet' [of "[text_paragraph (strip t)]" self doc] by (simp add: step_ok_refl)
    from r "7.IH" have 2: "step_ok self ?d self1 doc1" by simp
    from step_ok_trans [OF 1 2] show "step_ok self doc self1 doc1" .
  qed
qed

lemma process_element_step:
  "process_element self anc doc element = Inr (self1, doc1) \<Longrightarrow> step_ok self doc self1 doc1"
  using walk_step(1) by blast

lemma str_nat_not_Nil: "str_nat n \<noteq> []"
  by (subst str_nat.simps) simp

lemma digit_char_inj: "a < 10 \<Longrightarrow> b < 10 \<Longrightarrow> digit_char a = digit_char b \<Longrightarrow> a = b"
proof -
  assume a: "a < 10" and b: "b < 10" and e: "digit_char a = digit_char b"
  from e have "(of_char (digit_char a) :: nat) = of_char (digit_char b)"
    by simp
  with a b show "a = b"
    by (simp add: digit_char_def)
qed

lemma str_nat_inj: "str_nat m = str_nat n \<Longrightarrow> m = n"
proof (induction m arbitrary: n rule: less_induct)
  case (less m)
  show ?case
  proof (cases "m < 10")
    case m: True
    show ?thesis
    proof (cases "n < 10")
      case True
      with m less.prems show ?thesis
        by (simp add: str_nat.simps [of m] str_nat.simps [of n] digit_char_inj)
    next
      case False
      with m less.prems str_nat_not_Nil [of "n div 10"] show ?thesis
        by (simp add: str_nat.simps [of m] str_nat.simps [of n])
    qed
  next
    case m: False
    show ?thesis
    proof (cases "n < 10")
      case True
      with m less.prems str_nat_not_Nil [of "m div 10"] show ?thesis
        by (simp add: str_nat.simps [of m] str_nat.simps [of n])
    next
      case False
      with m less.prems have 1: "str_nat (m div 10) = str_nat (n div 10)"
        and 2: "digit_char (m mod 10) = digit_char (n mod 10)"
        by (simp_all add: str_nat.simps [of m] str_nat.simps [of n])
      from m have "m div 10 < m" by simp
      from less.IH [OF this 1] have "m div 10 = n div 10" .
      moreover from 2 have "m mod 10 = n mod 10"
        by (intro digit_char_inj) simp_all
      ultimately show ?thesis
        by (metis div_mult_mod_eq)
    qed
  qed
qed

lemma inj_text_image_marker: "inj text_image_marker"
  by (rule injI)
    (simp add: text_image_marker_def component_marker_def new_paragraph_def plain_run_def str_nat_inj)

lemma inj_text_block_marker: "inj text_block_marker"
  by (rule injI)
    (simp add: text_block_marker_def new_paragraph_def plain_run_def str_nat_inj)

lemma add_seo_metadata_table_quiet:
  "\<exists>out. add_seo_metadata_table self doc soup = doc @ out \<and> list_all quiet out"
  unfolding add_seo_metadata_table_def Let_def
  by (auto split: sum.splits intro!: quiet_table_Cons)

lemma save_to_docx_step:
  assumes "save_to_docx self u soup = Inr (self1, doc1)"
  shows "step_ok (self\<lparr>text_block_count := 0, text_image_count := 0\<rparr>) [] self1 doc1"
proof -
  let ?self0 = "self\<lparr>text_block_count := 0, text_image_count := 0\<rparr>"
  let ?doc1 = "case find [''h1''] soup of
                 Some h1 \<Rightarrow> [source_paragraph u, empty_paragraph] @ [heading (get_text_strip h1) 1, empty_paragraph]
               | None \<Rightarrow> [source_paragraph u, empty_paragraph]"
  have "list_all quiet ?doc1"
    by (simp split: option.splits)
  from step_ok_quiet' [OF this, of ?self0 "[]"] have 1: "step_ok ?self0 [] ?self0 ?doc1"
    by simp
  from assms obtain doc2 where
    w: "(case (case find_anc [] [''main''] soup of
                 Some m \<Rightarrow> Some m
               | None \<Rightarrow> find_anc [] [''body''] soup) of
           Some (anc, element) \<Rightarrow> process_element ?self0 anc ?doc1 element
         | None \<Rightarrow> Inr (?self0, ?doc1 @ [text_paragraph ''No main content found.''])) = Inr (self1, doc2)"
    and d: "doc1 = add_seo_metadata_table self1 (doc2 @ [empty_paragraph]) soup"
    unfolding save_to_docx_def Let_def by (auto split: sum.splits)
  from w have 2: "step_ok ?self0 ?doc1 self1 doc2"
    using step_ok_quiet' [of "[text_paragraph ''No main content found.'']" ?self0 ?doc1]
    by (auto split: option.splits dest: process_element_step)
  from add_seo_metadata_table_quiet [of self1 "doc2 @ [empty_paragraph]" soup] d
  obtain out where "doc1 = doc2 @ (empty_paragraph # out)" and "list_all quiet out"
    by auto
  with step_ok_quiet' [of "empty_paragraph # out" self1 doc2]
  have 3: "step_ok self1 doc2 self1 doc1"
    by simp
  from step_ok_trans [OF step_ok_trans [OF 1 2] 3] show ?thesis .
qed

lemma numbering_from_zero:
  assumes "step_ok self [] self1 doc1" "text_block_count self = 0" "text_image_count self = 0"
  shows "text_image_markers doc1 = map text_image_marker [1 ..< Suc (text_image_count self1)]"
    and "text_block_markers doc1 = map text_block_marker [1 ..< Suc (text_block_count self1)]"
  using assms by (auto simp: step_ok_def chunk_ok_def)

lemma example_extraction:
  "save_to_docx used_worker ''http://example.com/page'' example_soup
     = Inr (example_worker\<lparr>text_block_count := 1, text_image_count := 2\<rparr>, example_doc)"
  by code_simp

lemma digit_value: "d < 10 \<Longrightarrow> code_point (digit_char d) - 48 = d"
  by (simp add: digit_char_def code_point_def)

lemma decimal_value_snoc: "decimal_value (s @ [c]) = 10 * decimal_value s + (code_point c - 48)"
  by (simp add: decimal_value_def)

lemma decimal_value_str_nat: "decimal_value (str_nat n) = n"
proof (induction n rule: str_nat.induct)
  case (1 n)
  show ?case
  proof (cases "n < 10")
    case True
    then show ?thesis
      using decimal_value_snoc [of "[]" "digit_char n"]
      by (simp add: str_nat.simps [of n] digit_value decimal_value_def)
  next
    case False
    with 1 have "decimal_value (str_nat (n div 10)) = n div 10"
      by simp
    with False show ?thesis
      by (simp add: str_nat.simps [of n] decimal_value_snoc digit_value)
  qed
qed

lemma text_image_label_iff:
  "text_image_label label \<longleftrightarrow> (\<exists>n. label = ''Text Image '' @ str_nat n)"
proof
  assume a: "text_image_label label"
  have len: "length ''Text Image '' = 11"
    by simp
  from a have "take (length ''Text Image '') label = ''Text Image ''"
    and n: "str_nat (decimal_value (drop 11 label)) = drop 11 label"
    unfolding text_image_label_def startswith_def by blast+
  then have "take 11 label = ''Text Image ''"
    unfolding len by blast
  with append_take_drop_id [of 11 label] n
  have "label = ''Text Image '' @ str_nat (decimal_value (drop 11 label))"
    by metis
  then show "\<exists>n. label = ''Text Image '' @ str_nat n" ..
next
  assume "\<exists>n. label = ''Text Image '' @ str_nat n"
  then obtain n where "label = ''Text Image '' @ str_nat n" ..
  then show "text_image_label label"
    by (simp add: text_image_label_def startswith_def decimal_value_str_nat)
qed

lemma marker_label_marker: "marker_label (component_marker label) = Some label"
  by (simp add: marker_label_def component_marker_def new_paragraph_def plain_run_def)

lemma marker_label_Some: "marker_label b = Some label \<Longrightarrow> b = component_marker label"
  by (auto simp: marker_label_def Let_def split: block.splits list.splits if_splits)

lemma labelled_marker: "text_image_labelled (component_marker label) = text_image_label label"
  by (simp add: text_image_labelled_def marker_label_marker)

lemma labelled_text_image_marker: "text_image_labelled (text_image_marker n)"
  unfolding text_image_marker_def labelled_marker text_image_label_iff by blast

lemma labelled_format:
  assumes "text_image_labelled (Paragraph p)"
  shows "\<exists>r. runs p = [r] \<and> italic r \<and> \<not> bold r \<and> font_size r = Some 9"
proof -
  from assms obtain label where "Paragraph p = component_marker label"
    by (auto simp: text_image_labelled_def split: option.splits dest: marker_label_Some)
  then show ?thesis
    by (auto simp: component_marker_def new_paragraph_def plain_run_def)
qed

lemma not_labelled_table [simp]: "\<not> text_image_labelled (Table st grid)"
  by (simp add: text_image_labelled_def marker_label_def)

lemma unlabelled_quiet: "quiet b \<Longrightarrow> \<not> text_image_labelled b \<Longrightarrow> unlabelled b"
  by (simp add: quiet_def unlabelled_def)

lemma not_labelled_runs:
  "\<forall>r \<in> set (runs p). \<not> (italic r \<and> \<not> bold r \<and> font_size r = Some 9) \<Longrightarrow>
   \<not> text_image_labelled (Paragraph p)"
  using labelled_format [of p] by fastforce

lemma unlabelled_paragraph:
  "\<forall>r \<in> set (runs p). \<not> (italic r \<and> \<not> bold r \<and> font_size r = Some 9) \<Longrightarrow>
   unlabelled (Paragraph p)"
  by (simp add: unlabelled_def not_labelled_runs)

lemma unlabelled_paragraphs [simp]:
  "unlabelled empty_paragraph" "unlabelled (text_paragraph t)" "unlabelled (heading t l)"
  "unlabelled (source_paragraph u)" "unlabelled seo_header" "unlabelled (text_block_marker n)"
  unfolding empty_paragraph_def text_paragraph_def heading_def source_paragraph_def
    seo_header_def text_block_marker_def new_paragraph_def
  by (rule unlabelled_paragraph, simp add: plain_run_def)+

lemma unlabelled_plain_paragraph:
  "\<forall>r \<in> set (runs p). font_size r = None \<Longrightarrow> unlabelled (Paragraph p)"
  by (rule unlabelled_quiet, erule quiet_plain_paragraph) (auto dest: labelled_format)

lemma unlabelled_table_Cons:
  "r \<noteq> bold_run ''Image Position: Left\<newline>'' \<Longrightarrow>
   unlabelled (Table st ((runs_cell (r # rs) # cs) # rows))"
  by (rule unlabelled_quiet, erule quiet_table_Cons) simp

lemma labels_ok_plain:
  assumes "list_all unlabelled out"
  shows "labels_ok out"
proof -
  from assms have a: "list_all (\<lambda>b. \<not> is_text_image_table b) out"
    and b: "filter text_image_labelled out = []"
    by (auto simp: list_all_iff filter_empty_conv unlabelled_def)
  from a have "case out of [] \<Rightarrow> True | b # bs \<Rightarrow> \<not> is_text_image_table b"
    by (cases out) auto
  with a b show ?thesis
    by (simp add: labels_ok_def labelled_markers_def text_image_markers_none)
qed

lemma labels_ok_append:
  assumes "labels_ok out1" and "labels_ok out2"
  shows "labels_ok (out1 @ out2)"
proof -
  have "text_image_markers (out1 @ out2) = text_image_markers out1 @ text_image_markers out2"
    using assms(2) by (intro text_image_markers_append) (simp add: labels_ok_def)
  with assms have 1: "labelled_markers (out1 @ out2) = text_image_markers (out1 @ out2)"
    by (simp add: labels_ok_def labelled_markers_def)
  have 2: "case out1 @ out2 of [] \<Rightarrow> True | b # bs \<Rightarrow> \<not> is_text_image_table b"
    using assms by (cases out1) (auto simp: labels_ok_def)
  from 1 2 show ?thesis
    by (simp add: labels_ok_def)
qed

lemma labels_step_refl: "labels_step doc doc"
  unfolding labels_step_def by (rule exI [of _ "[]"]) (simp add: labels_ok_plain)

lemma labels_step_trans:
  assumes "labels_step doc doc1" and "labels_step doc1 doc2"
  shows "labels_step doc doc2"
proof -
  from assms obtain out1 out2 where
    o: "doc1 = doc @ out1" "doc2 = doc1 @ out2" and c: "labels_ok out1" "labels_ok out2"
    by (auto simp: labels_step_def)
  from o have "doc2 = doc @ (out1 @ out2)"
    by simp
  with labels_ok_append [OF c] show ?thesis
    unfolding labels_step_def by blast
qed

lemma labels_step_plain: "list_all unlabelled out \<Longrightarrow> labels_step doc (doc @ out)"
  unfolding labels_step_def using labels_ok_plain by blast

lemma unlabelled_content_blocks: "list_all unlabelled (content_blocks seen tags)"
  by (induction seen tags rule: content_blocks.induct) (auto simp: Let_def)

lemma unlabelled_fallback_blocks: "list_all unlabelled (fallback_blocks seen containers)"
  by (induction seen containers rule: fallback_blocks.induct) (auto simp: Let_def)

lemma hero_article_labels:
  "hero_article self doc element = Inr (self1, doc1) \<Longrightarrow> labels_step doc doc1"
  unfolding hero_article_def Let_def
  by (auto split: sum.splits option.splits if_splits
      intro!: labels_step_plain unlabelled_table_Cons unlabelled_plain_paragraph
      simp: new_paragraph_def bold_run_def italic_run_def plain_run_def)

lemma articles_list_labels:
  "articles_list self doc element = Inr (self1, doc1) \<Longrightarrow> labels_step doc doc1"
  unfolding articles_list_def Let_def
  by (auto split: sum.splits option.splits if_splits
      intro!: labels_step_plain unlabelled_table_Cons)

lemma unlabelled_component_marker:
  "\<not> text_image_label label \<Longrightarrow> unlabelled (component_marker label)"
  by (rule unlabelled_quiet) (simp_all add: labelled_marker)

lemma other_component_labels:
  "\<not> text_image_label component_name \<Longrightarrow>
   other_component self doc element component_name = Inr (self1, doc1) \<Longrightarrow> labels_step doc doc1"
  unfolding other_component_def Let_def
  by (auto split: sum.splits option.splits if_splits
      intro!: labels_step_plain unlabelled_table_Cons unlabelled_component_marker)

lemma text_image_labels:
  assumes "text_image self anc doc element ''Text Image'' = Inr (self1, doc1)"
  shows "labels_step doc doc1"
proof -
  let ?content = "if find_all_anc anc ([''p''] @ heading_tags @ [''li'']) element \<noteq> []
      then content_blocks {} (find_all_anc anc ([''p''] @ heading_tags @ [''li'']) element)
      else fallback_blocks {} (find_all_class_re text_patterns element)"
  from assms obtain info where
    d: "doc1 = doc @ [text_image_marker (Suc (text_image_count self)), text_image_table info,
              empty_paragraph] @ ?content @ [empty_paragraph]"
    unfolding text_image_def Let_def text_image_marker_def
    by (auto split: sum.splits)
  have q: "list_all unlabelled (empty_paragraph # ?content @ [empty_paragraph])"
    by (simp add: unlabelled_content_blocks unlabelled_fallback_blocks)
  then have q1: "list_all (\<lambda>b. \<not> is_text_image_table b) (empty_paragraph # ?content @ [empty_paragraph])"
    and q2: "filter text_image_labelled (empty_paragraph # ?content @ [empty_paragraph]) = []"
    unfolding list_all_iff filter_empty_conv unlabelled_def by blast+
  let ?out = "text_image_marker (Suc (text_image_count self)) # text_image_table info
       # (empty_paragraph # ?content @ [empty_paragraph])"
  have m: "text_image_markers ?out = [text_image_marker (Suc (text_image_count self))]"
    using text_image_markers_Cons_none [OF q1] by simp
  have n: "\<not> is_text_image_table (text_image_marker k)" for k
    using quiet_paragraphs(4) [of "''Text Image '' @ str_nat k"]
    by (simp add: quiet_def text_image_marker_def)
  have t: "\<not> text_image_labelled (text_image_table info)"
    by (simp add: text_image_table_def)
  have l: "labelled_markers ?out = [text_image_marker (Suc (text_image_count self))]"
    using q2 t labelled_text_image_marker by (simp add: labelled_markers_def)
  have "labels_ok ?out"
    unfolding labels_ok_def using m l n by simp
  then show ?thesis
    unfolding labels_step_def d by (intro exI [of _ ?out]) simp
qed

lemma process_special_component_labels:
  "\<not> text_image_label component_name \<Longrightarrow>
   process_special_component self anc doc element component_name = Inr (self1, doc1) \<Longrightarrow>
   labels_step doc doc1"
  unfolding process_special_component_def
  by (auto split: if_splits
      intro: hero_article_labels articles_list_labels other_component_labels text_image_labels)

lemma process_children_with_links_unlabelled:
  "process_children_with_links self (new_paragraph st []) element = Inr p \<Longrightarrow> unlabelled (Paragraph p)"
  unfolding process_children_with_links_def
  by (rule unlabelled_plain_paragraph, erule add_child_runs_size) (simp add: new_paragraph_def)

lemma list_items_unlabelled:
  "list_items self st lis = Inr ps \<Longrightarrow> list_all unlabelled ps"
proof (induction lis arbitrary: ps)
  case Nil
  then show ?case by simp
next
  case (Cons li lis)
  then show ?case
    by (auto split: sum.splits dest: process_children_with_links_unlabelled)
qed

lemma process_table_labels: "labels_step doc (process_table doc table_element)"
proof -
  from process_table_step [of doc table_element] obtain out where
    o: "process_table doc table_element = doc @ out" and q: "list_all quiet out"
    by blast
  have "list_all (\<lambda>b. \<not> text_image_labelled b) out"
  proof (cases "table_rows table_element")
    case Nil
    then have "process_table doc table_element = doc @ []"
      by (simp add: process_table_def table_rows_def)
    with o show ?thesis by simp
  next
    case (Cons row rows)
    then have "table_rows table_element \<noteq> []" by simp
    from process_table_closed [OF this, of doc] o show ?thesis
      by auto
  qed
  with q have "list_all unlabelled out"
    by (simp add: list_all_iff unlabelled_quiet)
  with o show ?thesis
    by (simp add: labels_step_plain)
qed

lemma text_block_tagging_labels:
  "labels_step doc (snd (text_block_tagging self doc element))"
  using labels_step_plain [of "[text_block_marker (Suc (text_block_count self))]" doc]
  by (simp add: text_block_tagging_def labels_step_refl)

lemma walk_labels:
  "(\<forall>self1 doc1. process_element self anc doc element = Inr (self1, doc1)
       \<longrightarrow> list_all (\<lambda>cn. \<not> text_image_label cn) (component_names element)
       \<longrightarrow> labels_step doc doc1)"
  "(\<forall>self1 doc1. process_children self anc doc nodes = Inr (self1, doc1)
       \<longrightarrow> list_all (\<lambda>cn. \<not> text_image_label cn) (concat (map component_names nodes))
       \<longrightarrow> labels_step doc doc1)"
proof (induction self anc doc element and self anc doc nodes
    rule: process_element_process_children.induct)
  case (1 self anc doc n cs as ks)
  let ?e = "Tag n cs as ks"
  let ?s = "fst (text_block_tagging self doc ?e)"
  let ?d = "snd (text_block_tagging self doc ?e)"
  note t = text_block_tagging_labels [of doc self ?e]
  show ?case
  proof (intro allI impI)
    fix self1 doc1
    assume r: "process_element self anc doc ?e = Inr (self1, doc1)"
      and names: "list_all (\<lambda>cn. \<not> text_image_label cn) (component_names ?e)"
    show "labels_step doc doc1"
    proof (cases "skipped ?e")
      case True
      with r show ?thesis
        by (simp add: process_element_Tag labels_step_refl)
    next
      case ns: False
      have main: "labels_step ?d doc1"
      proof (cases "special_component ?e")
        case (Some component_name)
        with r ns have "process_special_component ?s anc ?d ?e component_name = Inr (self1, doc1)"
          by (simp add: process_element_Tag)
        moreover from names ns Some have "\<not> text_image_label component_name"
          by simp
        ultimately show ?thesis by (intro process_special_component_labels)
      next
        case None
        consider (h1) "n = ''h1''"
          | (heading) "n \<noteq> ''h1''" "n \<in> set heading_tags"
          | (p) "n \<noteq> ''h1''" "n \<notin> set heading_tags" "n = ''p''"
          | (list) "n \<noteq> ''h1''" "n \<notin> set heading_tags" "n \<noteq> ''p''" "n \<in> set [''ul'', ''ol'']"
          | (table) "n \<noteq> ''h1''" "n \<notin> set heading_tags" "n \<noteq> ''p''" "n \<notin> set [''ul'', ''ol'']"
              "n = ''table''"
          | (other) "n \<noteq> ''h1''" "n \<notin> set heading_tags" "n \<noteq> ''p''" "n \<notin> set [''ul'', ''ol'']"
              "n \<noteq> ''table''"
          by blast
        then show ?thesis
        proof cases
          case h1
          with r ns None have "doc1 = ?d"
            by (simp_all add: process_element_Tag)
          then show ?thesis by (simp add: labels_step_refl)
        next
          case heading
          with r ns None obtain p where
            "process_children_with_links ?s (new_paragraph (heading_style (heading_level n)) []) ?e = Inr p"
            and "doc1 = ?d @ [Paragraph p]"
            by (auto simp: process_element_Tag split: sum.splits)
          with labels_step_plain [of "[Paragraph p]" ?d] show ?thesis
            by (simp add: process_children_with_links_unlabelled)
        next
          case p
          with r ns None obtain q where
            "process_children_with_links ?s (new_paragraph None []) ?e = Inr q"
            and "doc1 = ?d @ [Paragraph q]"
            by (auto simp: process_element_Tag split: sum.splits)
          with labels_step_plain [of "[Paragraph q]" ?d] show ?thesis
            by (simp add: process_children_with_links_unlabelled)
        next
          case list
          with r ns None obtain ps where
            "list_items ?s (if n = ''ul'' then ''List Bullet'' else ''List Number'')
               (find_all_children ''li'' ?e) = Inr ps"
            and "doc1 = ?d @ ps"
            by (auto simp: process_element_Tag split: sum.splits)
          with labels_step_plain [of ps ?d] show ?thesis
            by (simp add: list_items_unlabelled)
        next
          case table
          with r ns None have "doc1 = process_table ?d ?e"
            by (simp_all add: process_element_Tag heading_tags_def)
          with process_table_labels [of ?d ?e] show ?thesis
            by simp
        next
          case other
          with r ns None have c: "process_children ?s (?e # anc) ?d ks = Inr (self1, doc1)"
            by (simp add: process_element_Tag)
          from names ns None other
          have k: "list_all (\<lambda>cn. \<not> text_image_label cn) (concat (map component_names ks))"
            by simp
          from ns have "n \<notin> set skipped_tags" "\<not> set cs \<inter> exclusions \<noteq> {}"
            "get ?e ''id'' \<noteq> Some ''nppe-feedback-article-form''"
            by (simp_all add: skipped_def)
          with "1.IH" [OF refl _ _ _ refl refl None] other
          have "\<forall>self1 doc1. process_children ?s (?e # anc) ?d ks = Inr (self1, doc1)
                  \<longrightarrow> list_all (\<lambda>cn. \<not> text_image_label cn) (concat (map component_names ks))
                  \<longrightarrow> labels_step ?d doc1"
            by blast
          with c k show ?thesis by blast
        qed
      qed
      from labels_step_trans [OF t main] show ?thesis .
    qed
  qed
next
  case (2 self anc doc t)
  then show ?case by (simp add: labels_step_refl)
next
  case (3 self anc doc t)
  then show ?case by (simp add: labels_step_refl)
next
  case (4 self anc doc)
  then show ?case by (simp add: labels_step_refl)
next
  case (5 self anc doc n cs as ks rest)
  show ?case
  proof (intro allI impI)
    fix self1 doc1
    assume r: "process_children self anc doc (Tag n cs as ks # rest) = Inr (self1, doc1)"
      and names: "list_all (\<lambda>cn. \<not> text_image_label cn)
                    (concat (map component_names (Tag n cs as ks # rest)))"
    from r obtain s d where
      e: "process_element self anc doc (Tag n cs as ks) = Inr (s, d)"
      and c: "process_children s anc d rest = Inr (self1, doc1)"
      by (auto split: sum.splits)
    from names have n1: "list_all (\<lambda>cn. \<not> text_image_label cn) (component_names (Tag n cs as ks))"
      and n2: "list_all (\<lambda>cn. \<not> text_image_label cn) (concat (map component_names rest))"
      by (simp_all del: component_names.simps)
    from "5.IH"(1) e n1 have 1: "labels_step doc d" by blast
    from "5.IH"(2) [OF e refl] c n2 have 2: "labels_step d doc1" by blast
    from labels_step_trans [OF 1 2] show "labels_step doc doc1" .
  qed
next
  case (6 self anc doc t rest)
  show ?case
  proof (intro allI impI)
    fix self1 doc1
    assume r: "process_children self anc doc (NavigableString t # rest) = Inr (self1, doc1)"
      and names: "list_all (\<lambda>cn. \<not> text_image_label cn)
                    (concat (map component_names (NavigableString t # rest)))"
    let ?d = "if 20 < length (strip t) then doc @ [text_paragraph (strip t)] else doc"
    have 1: "labels_step doc ?d"
      using labels_step_plain [of "[text_paragraph (strip t)]" doc] by (simp add: labels_step_refl)
    from r names "6.IH" have 2: "labels_step ?d doc1" by simp
    from labels_step_trans [OF 1 2] show "labels_step doc doc1" .
  qed
next
  case (7 self anc doc t rest)
  show ?case
  proof (intro allI impI)
    fix self1 doc1
    assume r: "process_children self anc doc (Comment t # rest) = Inr (self1, doc1)"
      and names: "list_all (\<lambda>cn. \<not> text_image_label cn)
                    (concat (map component_names (Comment t # rest)))"
    let ?d = "if 20 < length (strip t) then doc @ [text_paragraph (strip t)] else doc"
    have 1: "labels_step doc ?d"
      using labels_step_plain [of "[text_paragraph (strip t)]" doc] by (simp add: labels_step_refl)
    from r names "7.IH" have 2: "labels_step ?d doc1" by simp
    from labels_step_trans [OF 1 2] show "labels_step doc doc1" .
  qed
qed

lemma add_seo_metadata_table_unlabelled:
  "\<exists>out. add_seo_metadata_table self doc soup = doc @ out \<and> list_all unlabelled out"
  unfolding add_seo_metadata_table_def Let_def
  by (auto split: sum.splits intro!: unlabelled_table_Cons)

lemma save_to_docx_labels:
  assumes "save_to_docx self u soup = Inr (self1, doc1)"
    and "list_all (\<lambda>cn. \<not> text_image_label cn) (page_component_names soup)"
  shows "labelled_markers doc1 = text_image_markers doc1"
proof -
  let ?self0 = "self\<lparr>text_block_count := 0, text_image_count := 0\<rparr>"
  let ?doc1 = "case find [''h1''] soup of
                 Some h1 \<Rightarrow> [source_paragraph u, empty_paragraph] @ [heading (get_text_strip h1) 1, empty_paragraph]
               | None \<Rightarrow> [source_paragraph u, empty_paragraph]"
  have "list_all unlabelled ?doc1"
    by (simp split: option.splits)
  from labels_step_plain [OF this, of "[]"] have 1: "labels_step [] ?doc1"
    by simp
  from assms(1) obtain doc2 where
    w: "(case main_content soup of
           Some (anc, element) \<Rightarrow> process_element ?self0 anc ?doc1 element
         | None \<Rightarrow> Inr (?self0, ?doc1 @ [text_paragraph ''No main content found.''])) = Inr (self1, doc2)"
    and d: "doc1 = add_seo_metadata_table self1 (doc2 @ [empty_paragraph]) soup"
    unfolding save_to_docx_def Let_def main_content_def by (auto split: sum.splits)
  have 2: "labels_step ?doc1 doc2"
  proof (cases "main_content soup")
    case None
    with w labels_step_plain [of "[text_paragraph ''No main content found.'']" ?doc1]
    show ?thesis by auto
  next
    case (Some m)
    obtain anc element where m: "m = (anc, element)"
      by (cases m)
    with Some w have "process_element ?self0 anc ?doc1 element = Inr (self1, doc2)"
      by simp
    moreover from Some m assms(2)
    have "list_all (\<lambda>cn. \<not> text_image_label cn) (component_names element)"
      by (simp add: page_component_names_def)
    ultimately show ?thesis
      using walk_labels(1) by blast
  qed
  from add_seo_metadata_table_unlabelled [of self1 "doc2 @ [empty_paragraph]" soup] d
  obtain out where "doc1 = doc2 @ (empty_paragraph # out)" and "list_all unlabelled out"
    by auto
  with labels_step_plain [of "empty_paragraph # out" doc2]
  have 3: "labels_step doc2 doc1"
    by simp
  from labels_step_trans [OF labels_step_trans [OF 1 2] 3] show ?thesis
    by (simp add: labels_step_def labels_ok_def)
qed

lemma numbered_extraction:
  "save_to_docx used_worker ''http://example.com/page'' numbered_soup
     = Inr (example_worker\<lparr>text_block_count := 1, text_image_count := 2\<rparr>, numbered_doc)"
  by code_simp

lemma lone_label_extraction:
  "save_to_docx example_worker ''http://example.com/page'' lone_label_soup
     = Inr (example_worker, lone_label_doc)"
  by code_simp

text \<open>
  C2, as the specification states it: the markers that read \<open>Text Image n\<close> are numbered
  1, 2, 3, ... without a gap or a repetition. A container with the class
  \<open>component--text-image-2\<close> is a component of the name \<open>Text Image 2\<close>; the generic renderer
  writes the marker of that name and counts nothing. Between two Text Image components it
  makes the document read \<open>Text Image 1\<close>, \<open>Text Image 2\<close>, \<open>Text Image 2\<close>, and a page whose
  only component has the class \<open>component--text-image-7\<close> has the one marker
  \<open>Text Image 7\<close>.
\<close>

theorem text_image_label_repeated:
  "save_to_docx used_worker ''http://example.com/page'' example_soup
     = Inr (example_worker\<lparr>text_block_count := 1, text_image_count := 2\<rparr>, example_doc)
   \<and> labelled_markers example_doc
       = [text_image_marker 1, text_image_marker 2, text_image_marker 2]
   \<and> \<not> distinct (labelled_markers example_doc)
   \<and> save_to_docx example_worker ''http://example.com/page'' lone_label_soup
       = Inr (example_worker, lone_label_doc)
   \<and> text_image_count example_worker = 0
   \<and> labelled_markers lone_label_doc = [text_image_marker 7]
   \<and> labelled_markers lone_label_doc \<noteq> map text_image_marker [1 ..< Suc 0]"
proof -
  have 1: "labelled_markers example_doc
       = [text_image_marker 1, text_image_marker 2, text_image_marker 2]"
    by code_simp
  then have 2: "\<not> distinct (labelled_markers example_doc)"
    by simp
  have 3: "text_image_count example_worker = 0"
    by (simp add: example_worker_def)
  have 4: "labelled_markers lone_label_doc = [text_image_marker 7]"
    by code_simp
  then have 5: "labelled_markers lone_label_doc \<noteq> map text_image_marker [1 ..< Suc 0]"
    by simp
  from example_extraction 1 2 lone_label_extraction 3 4 5 show ?thesis
    by (intro conjI)
qed

text \<open>
  C2, amended. In the document of one extraction call, the markers that head the Text
  Image renderings are \<open>Text Image 1\<close>, \<open>Text Image 2\<close>, ... up to the final count, in this
  order and without a repetition, and the Text Block markers are \<open>Text Block 1\<close>,
  \<open>Text Block 2\<close>, ... likewise. When the walk hands no element to the component renderer
  under a name that reads \<open>Text Image n\<close>, these are all the markers of the document that
  read \<open>Text Image n\<close>. Each Text Image rendering adds one to its counter and starts with
  the marker of the new count; each element with the Text Block classes that the walker
  handles adds one to the other counter and adds the marker of the new count.
\<close>

theorem marker_numbering:
  "(save_to_docx self u soup = Inr (self1, doc1) \<longrightarrow>
      text_image_markers doc1 = map text_image_marker [1 ..< Suc (text_image_count self1)]
      \<and> text_block_markers doc1 = map text_block_marker [1 ..< Suc (text_block_count self1)]
      \<and> distinct (text_image_markers doc1) \<and> distinct (text_block_markers doc1)
      \<and> (list_all (\<lambda>component_name. \<not> text_image_label component_name)
            (page_component_names soup) \<longrightarrow>
          labelled_markers doc1 = map text_image_marker [1 ..< Suc (text_image_count self1)]))
   \<and> (process_special_component self anc doc element ''Text Image'' = Inr (self2, doc2) \<longrightarrow>
        text_image_count self2 = Suc (text_image_count self)
        \<and> text_block_count self2 = text_block_count self
        \<and> (\<exists>rest. doc2 = doc @ text_image_marker (Suc (text_image_count self)) # rest))
   \<and> (target_classes \<subseteq> set (get_class tagged) \<longrightarrow>
        text_block_tagging self doc tagged
          = (self\<lparr>text_block_count := Suc (text_block_count self)\<rparr>,
             doc @ [text_block_marker (Suc (text_block_count self))]))"
proof (intro conjI impI)
  assume s: "save_to_docx self u soup = Inr (self1, doc1)"
  from numbering_from_zero [OF save_to_docx_step [OF s]]
  show i: "text_image_markers doc1 = map text_image_marker [1 ..< Suc (text_image_count self1)]"
    and b: "text_block_markers doc1 = map text_block_marker [1 ..< Suc (text_block_count self1)]"
    by simp_all
  show "distinct (text_image_markers doc1)"
    unfolding i using inj_text_image_marker by (simp add: distinct_map inj_on_def inj_def)
  show "distinct (text_block_markers doc1)"
    unfolding b using inj_text_block_marker by (simp add: distinct_map inj_on_def inj_def)
  assume "list_all (\<lambda>component_name. \<not> text_image_label component_name) (page_component_names soup)"
  from save_to_docx_labels [OF s this] i
  show "labelled_markers doc1 = map text_image_marker [1 ..< Suc (text_image_count self1)]"
    by simp
next
  assume "process_special_component self anc doc element ''Text Image'' = Inr (self2, doc2)"
  then have t: "text_image self anc doc element ''Text Image'' = Inr (self2, doc2)"
    by (simp add: process_special_component_def)
  from text_image_step(2-4) [OF t]
  show "text_image_count self2 = Suc (text_image_count self)"
    and "text_block_count self2 = text_block_count self"
    and "\<exists>rest. doc2 = doc @ text_image_marker (Suc (text_image_count self)) # rest"
    by simp_all
next
  assume "target_classes \<subseteq> set (get_class tagged)"
  then show "text_block_tagging self doc tagged
          = (self\<lparr>text_block_count := Suc (text_block_count self)\<rparr>,
             doc @ [text_block_marker (Suc (text_block_count self))])"
    by (simp add: text_block_tagging_def)
qed

theorem marker_numbering_witness:
  "save_to_docx used_worker ''http://example.com/page'' numbered_soup
     = Inr (example_worker\<lparr>text_block_count := 1, text_image_count := 2\<rparr>, numbered_doc)
   \<and> list_all (\<lambda>component_name. \<not> text_image_label component_name)
        (page_component_names numbered_soup)
   \<and> text_image_markers numbered_doc = [text_image_marker 1, text_image_marker 2]
   \<and> text_block_markers numbered_doc = [text_block_marker 1]
   \<and> labelled_markers numbered_doc = [text_image_marker 1, text_image_marker 2]
   \<and> process_special_component used_worker [] [] text_image_example ''Text Image''
       = Inr (used_worker\<lparr>text_image_count := 8\<rparr>,
           [text_image_marker 8, text_image_table (Some (''http://example.com/a.jpg'', ''x'')),
            empty_paragraph, text_paragraph ''Body'', empty_paragraph])
   \<and> text_image_count used_worker = 7
   \<and> text_image_count (used_worker\<lparr>text_image_count := 8\<rparr>) = Suc (text_image_count used_worker)
   \<and> target_classes \<subseteq> set (get_class text_block_example)
   \<and> text_block_count example_worker = 0
   \<and> text_block_tagging example_worker [] text_block_example
        = (example_worker\<lparr>text_block_count := 1\<rparr>, [text_block_marker 1])"
proof -
  note e = numbered_extraction
  have c: "list_all (\<lambda>component_name. \<not> text_image_label component_name)
        (page_component_names numbered_soup)"
    by code_simp
  have f: "process_special_component used_worker [] [] text_image_example ''Text Image''
       = Inr (used_worker\<lparr>text_image_count := 8\<rparr>,
           [text_image_marker 8, text_image_table (Some (''http://example.com/a.jpg'', ''x'')),
            empty_paragraph, text_paragraph ''Body'', empty_paragraph])"
    by code_simp
  have u: "text_image_count used_worker = 7"
    by (simp add: used_worker_def)
  have t: "target_classes \<subseteq> set (get_class text_block_example)"
    by code_simp
  have z: "text_block_count example_worker = 0"
    by (simp add: example_worker_def)
  have l: "[Suc 0 ..< 3] = [Suc 0, 2]"
    by code_simp
  note m = marker_numbering [where self = used_worker and u = "''http://example.com/page''"
      and soup = numbered_soup
      and ?self1.0 = "example_worker\<lparr>text_block_count := 1, text_image_count := 2\<rparr>"
      and ?doc1.0 = numbered_doc
      and anc = "[]" and doc = "[]" and element = text_image_example
      and ?self2.0 = "used_worker\<lparr>text_image_count := 8\<rparr>"
      and ?doc2.0 = "[text_image_marker 8, text_image_table (Some (''http://example.com/a.jpg'', ''x'')),
            empty_paragraph, text_paragraph ''Body'', empty_paragraph]"
      and tagged = text_block_example]
  note k = marker_numbering [where self = example_worker and doc = "[]" and tagged = text_block_example]
  from m e have 1: "text_image_markers numbered_doc = [text_image_marker 1, text_image_marker 2]"
    and 2: "text_block_markers numbered_doc = [text_block_marker 1]"
    by (simp_all add: l)
  from m e c have 6: "labelled_markers numbered_doc = [text_image_marker 1, text_image_marker 2]"
    by (simp add: l)
  from m f u have 3: "text_image_count (used_worker\<lparr>text_image_count := 8\<rparr>)
      = Suc (text_image_count used_worker)"
    by simp
  from k t z have 5: "text_block_tagging example_worker [] text_block_example
        = (example_worker\<lparr>text_block_count := 1\<rparr>, [text_block_marker 1])"
    by simp
  from e c 1 2 6 f u 3 t z 5 show ?thesis
    by (intro conjI)
qed

text \<open>
  C3. The document of an extraction call does not depend on what the two counters hold
  when the call starts, because the call resets them; so a second call on the same worker
  with the same URL and the same tree returns the same document as the first.
\<close>

lemma save_to_docx_counters:
  "save_to_docx (self\<lparr>text_block_count := a, text_image_count := b\<rparr>) u soup = save_to_docx self u soup"
  by (simp add: save_to_docx_def)

theorem extraction_idempotent:
  "save_to_docx (self\<lparr>text_block_count := a, text_image_count := b\<rparr>) u soup = save_to_docx self u soup
   \<and> (save_to_docx self u soup = Inr (self1, doc1) \<longrightarrow> save_to_docx self1 u soup = Inr (self1, doc1))"
proof (intro conjI impI)
  show "save_to_docx (self\<lparr>text_block_count := a, text_image_count := b\<rparr>) u soup
             = save_to_docx self u soup"
    by (rule save_to_docx_counters)
  assume r: "save_to_docx self u soup = Inr (self1, doc1)"
  from save_to_docx_step [OF r] have "url self1 = url self" "base_url self1 = base_url self"
    by (simp_all add: step_ok_def)
  then have "self1 = self\<lparr>text_block_count := text_block_count self1,
                            text_image_count := text_image_count self1\<rparr>"
    by simp
  with save_to_docx_counters [where self = self and a = "text_block_count self1"
      and b = "text_image_count self1" and u = u and soup = soup] r
  show "save_to_docx self1 u soup = Inr (self1, doc1)"
    by simp
qed

theorem extraction_idempotent_witness:
  "save_to_docx used_worker ''http://example.com/page'' example_soup
     = Inr (example_worker\<lparr>text_block_count := 1, text_image_count := 2\<rparr>, example_doc)
   \<and> text_image_count used_worker = 7
   \<and> save_to_docx (example_worker\<lparr>text_block_count := 1, text_image_count := 2\<rparr>)
         ''http://example.com/page'' example_soup
     = Inr (example_worker\<lparr>text_block_count := 1, text_image_count := 2\<rparr>, example_doc)"
proof -
  have u: "text_image_count used_worker = 7"
    by (simp add: used_worker_def)
  from extraction_idempotent [where self = used_worker and u = "''http://example.com/page''"
      and soup = example_soup
      and ?self1.0 = "example_worker\<lparr>text_block_count := 1, text_image_count := 2\<rparr>"
      and ?doc1.0 = example_doc and a = 0 and b = 0] example_extraction u
  show ?thesis
    by simp
qed

text \<open>
  C5, as the specification states it: every element with the seven Text Block classes gets
  a marker. The element of the example has them, and an exclusion class too, and the walker
  adds nothing for it.
\<close>

theorem excluded_text_block_no_marker:
  "target_classes \<subseteq> set (get_class excluded_text_block_example)
   \<and> process_element example_worker [] [] excluded_text_block_example = Inr (example_worker, [])"
  by code_simp

text \<open>
  C5, amended. For every element that the exclusion rules do not skip and whose classes
  include the seven Text Block classes, the walker counts the element and adds the Text
  Block marker first. If the element is then named as a special component, the result is
  that of the component renderer, run on the document with the marker, and the children
  are not walked; if it is not, and its tag is none of those the walker handles itself, the
  result is that of walking the children from the document with the marker. In every case
  the marker stays in the document, right after what was there before.
\<close>

theorem text_block_then_component:
  "is_tag element \<and> \<not> skipped element \<and> target_classes \<subseteq> set (get_class element) \<longrightarrow>
     (\<forall>component_name. special_component element = Some component_name \<longrightarrow>
         process_element self anc doc element
           = process_special_component (self\<lparr>text_block_count := Suc (text_block_count self)\<rparr>) anc
               (doc @ [text_block_marker (Suc (text_block_count self))]) element component_name)
     \<and> (special_component element = None
          \<and> name element \<notin> set ([''h1''] @ heading_tags @ [''p'', ''ul'', ''ol'', ''table'']) \<longrightarrow>
         process_element self anc doc element
           = process_children (self\<lparr>text_block_count := Suc (text_block_count self)\<rparr>) (element # anc)
               (doc @ [text_block_marker (Suc (text_block_count self))]) (children element))
     \<and> (\<forall>self1 doc1. process_element self anc doc element = Inr (self1, doc1) \<longrightarrow>
          (\<exists>rest. doc1 = doc @ text_block_marker (Suc (text_block_count self)) # rest))"
proof (intro impI)
  assume a: "is_tag element \<and> \<not> skipped element \<and> target_classes \<subseteq> set (get_class element)"
  then obtain n cs as ks where e: "element = Tag n cs as ks"
    by (cases element) auto
  from a have t: "text_block_tagging self doc element
      = (self\<lparr>text_block_count := Suc (text_block_count self)\<rparr>,
         doc @ [text_block_marker (Suc (text_block_count self))])"
    by (simp add: text_block_tagging_def)
  have 1: "\<forall>component_name. special_component element = Some component_name \<longrightarrow>
         process_element self anc doc element
           = process_special_component (self\<lparr>text_block_count := Suc (text_block_count self)\<rparr>) anc
               (doc @ [text_block_marker (Suc (text_block_count self))]) element component_name"
    using a t unfolding e by (simp add: process_element_Tag)
  have 2: "special_component element = None
          \<and> name element \<notin> set ([''h1''] @ heading_tags @ [''p'', ''ul'', ''ol'', ''table'']) \<longrightarrow>
         process_element self anc doc element
           = process_children (self\<lparr>text_block_count := Suc (text_block_count self)\<rparr>) (element # anc)
               (doc @ [text_block_marker (Suc (text_block_count self))]) (children element)"
    using a t unfolding e by (simp add: process_element_Tag)
  have 3: "\<forall>self1 doc1. process_element self anc doc element = Inr (self1, doc1) \<longrightarrow>
          (\<exists>rest. doc1 = doc @ text_block_marker (Suc (text_block_count self)) # rest)"
  proof (intro allI impI)
    fix self1 doc1
    assume "process_element self anc doc element = Inr (self1, doc1)"
    with walk_step(1) [of self anc doc element] a t
    have "step_ok (self\<lparr>text_block_count := Suc (text_block_count self)\<rparr>)
            (doc @ [text_block_marker (Suc (text_block_count self))]) self1 doc1"
      by auto
    then show "\<exists>rest. doc1 = doc @ text_block_marker (Suc (text_block_count self)) # rest"
      by (auto simp: step_ok_def)
  qed
  from 1 2 3 show "(\<forall>component_name. special_component element = Some component_name \<longrightarrow>
         process_element self anc doc element
           = process_special_component (self\<lparr>text_block_count := Suc (text_block_count self)\<rparr>) anc
               (doc @ [text_block_marker (Suc (text_block_count self))]) element component_name)
     \<and> (special_component element = None
          \<and> name element \<notin> set ([''h1''] @ heading_tags @ [''p'', ''ul'', ''ol'', ''table'']) \<longrightarrow>
         process_element self anc doc element
           = process_children (self\<lparr>text_block_count := Suc (text_block_count self)\<rparr>) (element # anc)
               (doc @ [text_block_marker (Suc (text_block_count self))]) (children element))
     \<and> (\<forall>self1 doc1. process_element self anc doc element = Inr (self1, doc1) \<longrightarrow>
          (\<exists>rest. doc1 = doc @ text_block_marker (Suc (text_block_count self)) # rest))"
    by blast
qed

theorem text_block_then_component_witness:
  "is_tag text_block_component_example \<and> \<not> skipped text_block_component_example
   \<and> target_classes \<subseteq> set (get_class text_block_component_example)
   \<and> special_component text_block_component_example = Some ''Quote''
   \<and> process_element example_worker [] [] text_block_component_example
       = process_special_component (example_worker\<lparr>text_block_count := 1\<rparr>) []
           [text_block_marker 1] text_block_component_example ''Quote''
   \<and> process_element example_worker [] [] text_block_component_example
       = Inr (example_worker\<lparr>text_block_count := 1\<rparr>,
           [text_block_marker 1, component_marker ''Quote'',
            Table ''Table Grid'' [[runs_cell [italic_run ''No Image''], text_cell ''Some quoted words'']],
            empty_paragraph])
   \<and> is_tag text_block_example \<and> \<not> skipped text_block_example
   \<and> target_classes \<subseteq> set (get_class text_block_example)
   \<and> special_component text_block_example = None
   \<and> name text_block_example \<notin> set ([''h1''] @ heading_tags @ [''p'', ''ul'', ''ol'', ''table''])
   \<and> process_element example_worker [] [] text_block_example
       = process_children (example_worker\<lparr>text_block_count := 1\<rparr>) [text_block_example]
           [text_block_marker 1] (children text_block_example)
   \<and> process_element example_worker [] [] text_block_example
       = Inr (example_worker\<lparr>text_block_count := 1\<rparr>,
           [text_block_marker 1, Paragraph (new_paragraph (Some ''List Bullet'') [plain_run ''item''])])"
proof -
  have c: "is_tag text_block_component_example \<and> \<not> skipped text_block_component_example
      \<and> target_classes \<subseteq> set (get_class text_block_component_example)"
    by code_simp
  have cs: "special_component text_block_component_example = Some ''Quote''"
    by code_simp
  have cr: "process_element example_worker [] [] text_block_component_example
       = Inr (example_worker\<lparr>text_block_count := 1\<rparr>,
           [text_block_marker 1, component_marker ''Quote'',
            Table ''Table Grid'' [[runs_cell [italic_run ''No Image''], text_cell ''Some quoted words'']],
            empty_paragraph])"
    by code_simp
  have b: "is_tag text_block_example \<and> \<not> skipped text_block_example
      \<and> target_classes \<subseteq> set (get_class text_block_example)"
    by code_simp
  have bs: "special_component text_block_example = None
      \<and> name text_block_example \<notin> set ([''h1''] @ heading_tags @ [''p'', ''ul'', ''ol'', ''table''])"
    by code_simp
  have br: "process_element example_worker [] [] text_block_example
       = Inr (example_worker\<lparr>text_block_count := 1\<rparr>,
           [text_block_marker 1, Paragraph (new_paragraph (Some ''List Bullet'') [plain_run ''item''])])"
    by code_simp
  have z: "text_block_count example_worker = 0"
    by code_simp
  from text_block_then_component [of text_block_component_example example_worker "[]" "[]"] c cs z
  have 1: "process_element example_worker [] [] text_block_component_example
       = process_special_component (example_worker\<lparr>text_block_count := 1\<rparr>) []
           [text_block_marker 1] text_block_component_example ''Quote''"
    by simp
  from text_block_then_component [of text_block_example example_worker "[]" "[]"] b bs z
  have 2: "process_element example_worker [] [] text_block_example
       = process_children (example_worker\<lparr>text_block_count := 1\<rparr>) [text_block_example]
           [text_block_marker 1] (children text_block_example)"
    by simp
  from c cs cr b bs br 1 2 show ?thesis
    by simp
qed


end
